theory Spec2Isabelle
  imports Complex_Main
begin

section \<open>Values\<close>

text \<open>
  The payload of a log call is typed \<^verbatim>\<open>any\<close> in the source, and the analysis script works
  on whatever \<^verbatim>\<open>JSON.parse\<close> returns.  Both are modelled by the tree of JSON values.
  An optional value (\<^verbatim>\<open>data?: any\<close>, a missing property) is a \<open>json option\<close>, with
  \<open>None\<close> for \<^verbatim>\<open>undefined\<close>.

  \<^item> \<open>JNum q\<close> is a finite number with value \<open>q\<close> (every finite double is a rational;
    \<open>0\<close> and \<open>-0\<close> are the same value, and both are falsy).
  \<^item> \<open>JBigInt n\<close> is a \<^verbatim>\<open>BigInt\<close>.  A caller can pass one in a payload; \<^verbatim>\<open>JSON.parse\<close>
    never returns one, and \<^verbatim>\<open>JSON.stringify\<close> throws a \<^verbatim>\<open>TypeError\<close> on it.
  \<^item> \<open>JStr s\<close> is a string; each \<open>char\<close> stands for one code unit of the source string.
  \<^item> \<open>JObj kvs\<close> is a plain object: its own enumerable properties in enumeration order
    (the order of \<^verbatim>\<open>Object.entries\<close>), with pairwise distinct keys.
\<close>

datatype json =
    JNull
  | JBool bool
  | JNum rat
  | JBigInt int
  | JStr string
  | JArr "json list"
  | JObj "(string \<times> json) list"

text \<open>Truthiness of a value, as \<^verbatim>\<open>if (v)\<close>, \<^verbatim>\<open>!v\<close>, \<^verbatim>\<open>a || b\<close> and \<^verbatim>\<open>a && b\<close> test it.\<close>

fun truthy :: "json option \<Rightarrow> bool" where
  "truthy None = False"
| "truthy (Some JNull) = False"
| "truthy (Some (JBool b)) = b"
| "truthy (Some (JNum q)) = (q \<noteq> 0)"
| "truthy (Some (JBigInt n)) = (n \<noteq> 0)"
| "truthy (Some (JStr s)) = (s \<noteq> [])"
| "truthy (Some (JArr xs)) = True"
| "truthy (Some (JObj kvs)) = True"

text \<open>\<^verbatim>\<open>typeof v === 'object'\<close>: true of \<^verbatim>\<open>null\<close>, arrays and objects.\<close>

fun typeof_object :: "json \<Rightarrow> bool" where
  "typeof_object JNull = True"
| "typeof_object (JArr xs) = True"
| "typeof_object (JObj kvs) = True"
| "typeof_object v = False"

text \<open>
  \<^verbatim>\<open>key in v\<close> for a non-null object \<open>v\<close>.  The source only asks for the keys
  \<^verbatim>\<open>duration\<close>, \<^verbatim>\<open>elapsed\<close>, \<^verbatim>\<open>timing\<close>, \<^verbatim>\<open>error\<close>, \<^verbatim>\<open>status\<close> and \<^verbatim>\<open>count\<close>, none of which
  an array or \<^verbatim>\<open>Object.prototype\<close> carries, so an array has none of them and an object
  has the ones among its own properties.
\<close>

fun key_in :: "string \<Rightarrow> json \<Rightarrow> bool" where
  "key_in key (JObj kvs) = (key \<in> set (map fst kvs))"
| "key_in key v = False"

text \<open>
  \<^verbatim>\<open>v[key]\<close> and \<^verbatim>\<open>v?.key\<close> for the property names the source reads (none of them is a
  property of a string, number, boolean or array): \<^verbatim>\<open>undefined\<close> unless \<open>v\<close> is an
  object that has the property.  The optional chaining \<^verbatim>\<open>v?.key\<close> maps \<^verbatim>\<open>undefined\<close> and
  \<^verbatim>\<open>null\<close> to \<^verbatim>\<open>undefined\<close>.
\<close>

fun get :: "json \<Rightarrow> string \<Rightarrow> json option" where
  "get (JObj kvs) key = map_of kvs key"
| "get v key = None"

fun opt_get :: "json option \<Rightarrow> string \<Rightarrow> json option" where
  "opt_get None key = None"
| "opt_get (Some v) key = get v key"

text \<open>
  The assignment \<^verbatim>\<open>obj[key] = v\<close> on an object that the source made with the literal
  \<^verbatim>\<open>{}\<close>, as a function on its list of own properties.  An existing property keeps its
  place and takes the new value, a new one goes to the end (\<open>put_own\<close>).  The name
  \<^verbatim>\<open>__proto__\<close> is different: on such an object it is an accessor inherited from
  \<^verbatim>\<open>Object.prototype\<close>, and assigning to it sets the prototype (for an object or \<^verbatim>\<open>null\<close>)
  or does nothing (for any other value); in both cases no own property is made.
\<close>

fun put_own :: "(string \<times> json) list \<Rightarrow> string \<Rightarrow> json \<Rightarrow> (string \<times> json) list" where
  "put_own [] key v = [(key, v)]"
| "put_own ((k, w) # kvs) key v =
     (if k = key then (k, v) # kvs else (k, w) # put_own kvs key v)"

definition obj_set :: "(string \<times> json) list \<Rightarrow> string \<Rightarrow> json \<Rightarrow> (string \<times> json) list" where
  "obj_set kvs key v = (if key = ''__proto__'' then kvs else put_own kvs key v)"

text \<open>\<^verbatim>\<open>Object.keys(v)\<close> of a plain object; used to read results off.\<close>

fun Object_keys :: "json \<Rightarrow> string list" where
  "Object_keys (JObj kvs) = map fst kvs"
| "Object_keys v = []"

section \<open>The file writer\<close>

datatype FileMode = minimal | detailed | full

record DebugFileEntry =
  timestamp :: string
  namespace :: string
  message :: string
  data :: "json option"
  metadata :: "string option"

text \<open>
  \<open>metadata\<close> is \<open>Some r\<close> for \<^verbatim>\<open>{ requestId: r }\<close> and \<open>None\<close> when the property is not set.

  The state of a \<^verbatim>\<open>DebugFileWriter\<close>.  \<open>fileStream\<close> tells whether the stream is open
  (\<open>False\<close> is the source's \<^verbatim>\<open>null\<close>), \<open>flushInterval\<close> whether the timer is armed, and
  \<open>target\<close> is what this writer has appended to the target so far, one element for each
  call of \<^verbatim>\<open>fileStream.write\<close>.
\<close>

record DebugFileWriter =
  path :: string
  mode :: FileMode
  buffer :: "DebugFileEntry list"
  maxBufferSize :: nat
  flushInterval :: bool
  fileStream :: bool
  currentRequestId :: "string option"
  target :: "string list"

record FileWriterConfig =
  cfg_path :: "string option"
  cfg_mode :: "FileMode option"
  cfg_maxBufferSize :: "nat option"

text \<open>
  \<^verbatim>\<open>initializeFile\<close>.  Whether the directory can be made and the stream created is the
  environment's answer \<open>fs_ok\<close>; \<open>now\<close> is the clock's ISO string.  On success the header
  line is written, on failure the stream is \<^verbatim>\<open>null\<close>.
\<close>

definition initializeFile :: "bool \<Rightarrow> string \<Rightarrow> DebugFileWriter \<Rightarrow> DebugFileWriter" where
  "initializeFile fs_ok now w =
     (if fs_ok
      then w\<lparr>fileStream := True,
             target := target w @ [CHR 0x0A # ''--- Debug session started at '' @ now @ '' ---'' @ [CHR 0x0A]]\<rparr>
      else w\<lparr>fileStream := False\<rparr>)"

text \<open>The constructor: \<^verbatim>\<open>x || d\<close> takes the default for a missing, empty or zero \<open>x\<close>.\<close>

definition new_DebugFileWriter :: "bool \<Rightarrow> string \<Rightarrow> FileWriterConfig \<Rightarrow> DebugFileWriter" where
  "new_DebugFileWriter fs_ok now config =
     (let w = \<lparr>path = (case cfg_path config of None \<Rightarrow> ''/tmp/debug-tracer.log''
                         | Some p \<Rightarrow> if p = [] then ''/tmp/debug-tracer.log'' else p),
                mode = (case cfg_mode config of None \<Rightarrow> minimal | Some m \<Rightarrow> m),
                buffer = [],
                maxBufferSize = (case cfg_maxBufferSize config of None \<Rightarrow> 100
                                 | Some n \<Rightarrow> if n = 0 then 100 else n),
                flushInterval = False,
                fileStream = False,
                currentRequestId = None,
                target = []\<rparr>
      in (initializeFile fs_ok now w)\<lparr>flushInterval := True\<rparr>)"

subsection \<open>Mode policy\<close>

definition shouldWrite :: "FileMode \<Rightarrow> string \<Rightarrow> json option \<Rightarrow> bool" where
  "shouldWrite m ns d =
     (case m of
        minimal \<Rightarrow>
          ns = ''performance'' \<or> ns = ''timing'' \<or>
          (truthy d \<and> (case d of None \<Rightarrow> False
                        | Some v \<Rightarrow> typeof_object v \<and> (key_in ''duration'' v \<or> key_in ''elapsed'' v)))
      | detailed \<Rightarrow> ns \<notin> set [''trace'', ''verbose'', ''debug'']
      | full \<Rightarrow> True)"

text \<open>
  The loop of \<^verbatim>\<open>truncate\<close> over \<^verbatim>\<open>Object.entries(data)\<close>, with its counter and its
  \<^verbatim>\<open>break\<close>; \<open>f\<close> is the recursive call on a value.  The test \<^verbatim>\<open>count++ > 10\<close> reads the
  counter before it is incremented.
\<close>

fun truncate_entries ::
  "(json \<Rightarrow> json) \<Rightarrow> (string \<times> json) list \<Rightarrow> nat \<Rightarrow> (string \<times> json) list \<Rightarrow> (string \<times> json) list" where
  "truncate_entries f [] count truncated = truncated"
| "truncate_entries f ((key, val) # rest) count truncated =
     (if count > 10 then obj_set truncated ''...'' (JStr ''truncated'')
      else truncate_entries f rest (count + 1) (obj_set truncated key (f val)))"

function truncate :: "json \<Rightarrow> nat \<Rightarrow> nat \<Rightarrow> json" where
  "truncate d maxDepth currentDepth =
     (if currentDepth \<ge> maxDepth then JStr ''[truncated]''
      else case d of
          JArr xs \<Rightarrow> JArr (map (\<lambda>item. truncate item maxDepth (currentDepth + 1)) (take 5 xs))
        | JObj kvs \<Rightarrow>
            JObj (truncate_entries (\<lambda>v. truncate v maxDepth (currentDepth + 1)) kvs 0 [])
        | JStr s \<Rightarrow> if length s > 200 then JStr (take 200 s @ ''...[truncated]'') else JStr s
        | v \<Rightarrow> v)"
  by pat_completeness auto
termination
  by (relation "measure (\<lambda>(d, maxDepth, currentDepth). maxDepth - currentDepth)") auto

declare truncate.simps [simp del]

text \<open>The allow-list of \<^verbatim>\<open>processData\<close> in minimal mode, in the order the source walks it.\<close>

definition essential_keys :: "string list" where
  "essential_keys = [''duration'', ''elapsed'', ''timing'', ''error'', ''status'', ''count'']"

fun copy_essential :: "json \<Rightarrow> string list \<Rightarrow> (string \<times> json) list \<Rightarrow> (string \<times> json) list" where
  "copy_essential d [] essential = essential"
| "copy_essential d (key # keys) essential =
     copy_essential d keys
       (if key_in key d
        then (case get d key of Some v \<Rightarrow> obj_set essential key v | None \<Rightarrow> essential)
        else essential)"

text \<open>
  \<^verbatim>\<open>processData\<close>; \<open>None\<close> is the \<^verbatim>\<open>undefined\<close> it returns when no allow-list key is there.
  In minimal mode a payload that is not a non-null object leaves the \<^verbatim>\<open>if\<close> chain and
  reaches the final \<^verbatim>\<open>return data\<close>.
\<close>

definition processData :: "FileMode \<Rightarrow> json \<Rightarrow> json option" where
  "processData m d =
     (case m of
        minimal \<Rightarrow>
          if typeof_object d \<and> d \<noteq> JNull
          then (let essential = copy_essential d essential_keys []
                in if length essential > 0 then Some (JObj essential) else None)
          else Some d
      | detailed \<Rightarrow> Some (truncate d 3 0)
      | full \<Rightarrow> Some d)"

subsection \<open>Buffering and flushing\<close>

text \<open>
  \<^verbatim>\<open>JSON.stringify\<close> is the platform's; the writer's functions take it as the parameter
  \<open>S\<close>, which returns \<open>None\<close> where \<^verbatim>\<open>JSON.stringify\<close> throws (on a \<^verbatim>\<open>BigInt\<close>, for one).

  \<open>stream_write\<close> is one call of \<^verbatim>\<open>this.fileStream.write(chunk)\<close>.  \<open>forEach_write\<close> is
  the \<^verbatim>\<open>forEach\<close> of \<^verbatim>\<open>flush\<close> over the buffer: it returns the writer with the chunks
  written so far, and whether it ran to the end (\<open>True\<close>) or was left by a throw
  (\<open>False\<close>).  In \<^verbatim>\<open>flush\<close> a throw skips the assignment that empties the buffer and is
  caught and reported by the \<^verbatim>\<open>catch\<close>, which changes nothing in the writer.
\<close>

definition stream_write :: "string \<Rightarrow> DebugFileWriter \<Rightarrow> DebugFileWriter" where
  "stream_write chunk w = w\<lparr>target := target w @ [chunk]\<rparr>"

fun forEach_write ::
  "(DebugFileEntry \<Rightarrow> string option) \<Rightarrow> DebugFileEntry list \<Rightarrow> DebugFileWriter
     \<Rightarrow> DebugFileWriter \<times> bool" where
  "forEach_write S [] w = (w, True)"
| "forEach_write S (entry # rest) w =
     (case S entry of
        None \<Rightarrow> (w, False)
      | Some line \<Rightarrow> forEach_write S rest (stream_write (line @ [CHR 0x0A]) w))"

definition flush :: "(DebugFileEntry \<Rightarrow> string option) \<Rightarrow> DebugFileWriter \<Rightarrow> DebugFileWriter" where
  "flush S w =
     (if length (buffer w) = 0 \<or> \<not> fileStream w then w
      else (let (w', completed) = forEach_write S (buffer w) w
            in if completed then w'\<lparr>buffer := []\<rparr> else w'))"

text \<open>
  The entry that \<^verbatim>\<open>write\<close> builds once the call is accepted; \<open>now\<close> is the clock's ISO
  string at the call.  An empty request id is falsy and attaches no metadata.
\<close>

definition make_entry ::
  "string \<Rightarrow> string \<Rightarrow> string \<Rightarrow> json option \<Rightarrow> DebugFileWriter \<Rightarrow> DebugFileEntry" where
  "make_entry now ns msg d w =
     \<lparr>timestamp = now, namespace = ns, message = msg,
      data = (case d of None \<Rightarrow> None | Some v \<Rightarrow> processData (mode w) v),
      metadata = (case currentRequestId w of None \<Rightarrow> None
                  | Some r \<Rightarrow> if r = [] then None else Some r)\<rparr>"

definition write_entry ::
  "(DebugFileEntry \<Rightarrow> string option) \<Rightarrow> string \<Rightarrow> string \<Rightarrow> string \<Rightarrow> json option
     \<Rightarrow> DebugFileWriter \<Rightarrow> DebugFileWriter" where
  "write_entry S now ns msg d w =
     (if \<not> shouldWrite (mode w) ns d then w
      else
        let w' = w\<lparr>buffer := buffer w @ [make_entry now ns msg d w]\<rparr>
        in if length (buffer w') \<ge> maxBufferSize w' then flush S w' else w')"

definition setRequestId :: "string option \<Rightarrow> DebugFileWriter \<Rightarrow> DebugFileWriter" where
  "setRequestId requestId w = w\<lparr>currentRequestId := requestId\<rparr>"

definition destroy :: "(DebugFileEntry \<Rightarrow> string option) \<Rightarrow> DebugFileWriter \<Rightarrow> DebugFileWriter" where
  "destroy S w =
     (let w1 = (if flushInterval w then w\<lparr>flushInterval := False\<rparr> else w);
          w2 = flush S w1
      in if fileStream w2 then w2\<lparr>fileStream := False\<rparr> else w2)"

text \<open>
  What can happen to a writer during its lifetime: the calls of its public methods, and
  \<open>Tick\<close>, the timer's callback, which runs \<^verbatim>\<open>flush\<close> as long as the timer is armed.
\<close>

datatype writer_op =
    Write string string string "json option"
  | Flush
  | Tick
  | SetRequestId "string option"
  | Destroy

fun step :: "(DebugFileEntry \<Rightarrow> string option) \<Rightarrow> writer_op \<Rightarrow> DebugFileWriter \<Rightarrow> DebugFileWriter" where
  "step S (Write now ns msg d) w = write_entry S now ns msg d w"
| "step S Flush w = flush S w"
| "step S Tick w = (if flushInterval w then flush S w else w)"
| "step S (SetRequestId r) w = setRequestId r w"
| "step S Destroy w = destroy S w"

fun run :: "(DebugFileEntry \<Rightarrow> string option) \<Rightarrow> writer_op list \<Rightarrow> DebugFileWriter \<Rightarrow> DebugFileWriter" where
  "run S [] w = w"
| "run S (x # xs) w = run S xs (step S x w)"

section \<open>The log reader\<close>

datatype error = ReadError | TypeError

text \<open>\<^verbatim>\<open>s.startsWith(p)\<close>, \<^verbatim>\<open>s.toLowerCase()\<close> on ASCII letters, and \<^verbatim>\<open>s.includes(p)\<close>.\<close>

definition startsWith :: "string \<Rightarrow> string \<Rightarrow> bool" where
  "startsWith s p = (take (length p) s = p)"

definition lower_char :: "char \<Rightarrow> char" where
  "lower_char c =
     (case map_of (zip ''ABCDEFGHIJKLMNOPQRSTUVWXYZ'' ''abcdefghijklmnopqrstuvwxyz'') c of
        Some l \<Rightarrow> l
      | None \<Rightarrow> c)"

definition toLowerCase :: "string \<Rightarrow> string" where
  "toLowerCase s = map lower_char s"

fun str_includes :: "string \<Rightarrow> string \<Rightarrow> bool" where
  "str_includes [] p = (p = [])"
| "str_includes (c # s) p = (startsWith (c # s) p \<or> str_includes s p)"

text \<open>
  \<^verbatim>\<open>readLogFile\<close>.  The input is the list of lines that \<^verbatim>\<open>readline\<close> hands over, or
  \<open>None\<close> when the stream fails, which ends the process.  \<^verbatim>\<open>JSON.parse\<close> is the
  platform's and is the parameter \<open>P\<close>, with \<open>None\<close> for a thrown \<^verbatim>\<open>SyntaxError\<close>.
\<close>

fun read_lines :: "(string \<Rightarrow> json option) \<Rightarrow> string list \<Rightarrow> json list \<Rightarrow> json list" where
  "read_lines P [] logs = logs"
| "read_lines P (line # rest) logs =
     read_lines P rest
       (if startsWith line ''{''
        then (case P line of Some v \<Rightarrow> logs @ [v] | None \<Rightarrow> logs)
        else logs)"

definition readLogFile :: "(string \<Rightarrow> json option) \<Rightarrow> string list option \<Rightarrow> error + json list" where
  "readLogFile P input =
     (case input of None \<Rightarrow> Inl ReadError | Some lines \<Rightarrow> Inr (read_lines P lines []))"

section \<open>The analysis commands\<close>

text \<open>
  \<^verbatim>\<open>log.message?.toLowerCase().includes(p)\<close>: \<^verbatim>\<open>undefined\<close> (falsy) for a missing or
  \<^verbatim>\<open>null\<close> message, the test for a string, and a \<^verbatim>\<open>TypeError\<close> for any other value,
  which has no \<^verbatim>\<open>toLowerCase\<close> method.
\<close>

definition message_includes :: "json \<Rightarrow> string \<Rightarrow> error + bool" where
  "message_includes lg p =
     (case get lg ''message'' of
        None \<Rightarrow> Inr False
      | Some JNull \<Rightarrow> Inr False
      | Some (JStr s) \<Rightarrow> Inr (str_includes (toLowerCase s) p)
      | Some v \<Rightarrow> Inl TypeError)"

text \<open>\<^verbatim>\<open>a || b\<close> on tests that may throw: \<open>b\<close> is only evaluated when \<open>a\<close> is falsy.\<close>

fun orE :: "error + bool \<Rightarrow> error + bool \<Rightarrow> error + bool" where
  "orE (Inl e) y = Inl e"
| "orE (Inr True) y = Inr True"
| "orE (Inr False) y = y"

text \<open>\<^verbatim>\<open>logs.filter(p)\<close> for a test that may throw.\<close>

fun filterE :: "(json \<Rightarrow> error + bool) \<Rightarrow> json list \<Rightarrow> error + json list" where
  "filterE p [] = Inr []"
| "filterE p (x # xs) =
     (case p x of
        Inl e \<Rightarrow> Inl e
      | Inr b \<Rightarrow> (case filterE p xs of
                    Inl e \<Rightarrow> Inl e
                  | Inr ys \<Rightarrow> Inr (if b then x # ys else ys)))"

text \<open>The error test of \<^verbatim>\<open>analyzeCommand\<close> and the list \<^verbatim>\<open>errors\<close> it computes.\<close>

definition analyze_isError :: "json \<Rightarrow> error + bool" where
  "analyze_isError lg =
     orE (Inr (truthy (opt_get (get lg ''data'') ''error'')))
       (orE (message_includes lg ''error'') (message_includes lg ''failed''))"

definition analyze_errors :: "json list \<Rightarrow> error + json list" where
  "analyze_errors logs = filterE analyze_isError logs"

text \<open>The error test of \<^verbatim>\<open>errorsCommand\<close> and the list \<^verbatim>\<open>errors\<close> it prints in full.\<close>

definition errors_isError :: "json \<Rightarrow> error + bool" where
  "errors_isError lg =
     orE (Inr (truthy (opt_get (get lg ''data'') ''error'')))
       (orE (Inr (get lg ''level'' = Some (JStr ''error'')))
         (orE (message_includes lg ''error'')
           (orE (message_includes lg ''failed'') (message_includes lg ''exception''))))"

definition errorsCommand :: "json list \<Rightarrow> error + json list" where
  "errorsCommand logs = filterE errors_isError logs"

text \<open>The performance tests of \<^verbatim>\<open>analyzeCommand\<close> and of \<^verbatim>\<open>perfCommand\<close>.\<close>

definition analyze_isPerf :: "json \<Rightarrow> bool" where
  "analyze_isPerf lg =
     (truthy (opt_get (get lg ''data'') ''duration'') \<or>
      truthy (opt_get (get lg ''data'') ''elapsed'') \<or>
      truthy (opt_get (get lg ''data'') ''timing''))"

definition perf_isPerf :: "json \<Rightarrow> bool" where
  "perf_isPerf lg =
     (get lg ''namespace'' = Some (JStr ''performance'') \<or>
      truthy (opt_get (get lg ''data'') ''duration'') \<or>
      truthy (opt_get (get lg ''data'') ''elapsed'') \<or>
      truthy (opt_get (get lg ''data'') ''timing''))"

definition perfLogs :: "json list \<Rightarrow> json list" where
  "perfLogs logs = filter perf_isPerf logs"

text \<open>
  \<^verbatim>\<open>log.data?.duration || log.data?.elapsed || log.data?.timing\<close>: the first truthy
  value, or the last operand.
\<close>

definition duration_of :: "json \<Rightarrow> json option" where
  "duration_of lg =
     (if truthy (opt_get (get lg ''data'') ''duration'') then opt_get (get lg ''data'') ''duration''
      else if truthy (opt_get (get lg ''data'') ''elapsed'') then opt_get (get lg ''data'') ''elapsed''
      else opt_get (get lg ''data'') ''timing'')"

text \<open>
  \<^verbatim>\<open>log.message || 'Unknown'\<close> used as a property name.  A string is its own name; for a
  truthy value of another type the name is the platform's string conversion, the
  parameter \<open>ToString\<close>.
\<close>

definition op_key :: "(json \<Rightarrow> string) \<Rightarrow> json \<Rightarrow> string" where
  "op_key ToString lg =
     (if truthy (get lg ''message'')
      then (case get lg ''message'' of Some (JStr s) \<Rightarrow> s | Some v \<Rightarrow> ToString v | None \<Rightarrow> ''Unknown'')
      else ''Unknown'')"

text \<open>
  The object \<^verbatim>\<open>operations\<close> starts as \<^verbatim>\<open>{}\<close> and inherits from \<^verbatim>\<open>Object.prototype\<close>, so
  reading one of the names below finds an inherited value, which is truthy and is not an
  array: no group is created under such a name, and \<^verbatim>\<open>push\<close> on it is a \<^verbatim>\<open>TypeError\<close>.
\<close>

definition Object_prototype_keys :: "string list" where
  "Object_prototype_keys =
     [''constructor'', ''__defineGetter__'', ''__defineSetter__'', ''hasOwnProperty'',
      ''__lookupGetter__'', ''__lookupSetter__'', ''isPrototypeOf'', ''propertyIsEnumerable'',
      ''toString'', ''valueOf'', ''__proto__'', ''toLocaleString'']"

text \<open>
  One round of the grouping loop of \<^verbatim>\<open>perfCommand\<close>; \<open>operations\<close> holds the object's own
  properties, each an array of values, in the order they were created.  (The platform
  enumerates names that look like array indices first; the properties below do not
  depend on the order of the groups.)
\<close>

definition group_step ::
  "(json \<Rightarrow> string) \<Rightarrow> json \<Rightarrow> (string \<times> json list) list \<Rightarrow> error + (string \<times> json list) list" where
  "group_step ToString lg operations =
     (let op = op_key ToString lg;
          inherited = (op \<in> set Object_prototype_keys);
          operations1 = (if map_of operations op = None \<and> \<not> inherited
                         then operations @ [(op, [])] else operations)
      in case duration_of lg of
           None \<Rightarrow> Inr operations1
         | Some duration \<Rightarrow>
             if truthy (Some duration)
             then (if map_of operations1 op = None then Inl TypeError
                   else Inr (map (\<lambda>(k, ds). if k = op then (k, ds @ [duration]) else (k, ds)) operations1))
             else Inr operations1)"

fun group_loop ::
  "(json \<Rightarrow> string) \<Rightarrow> json list \<Rightarrow> (string \<times> json list) list \<Rightarrow> error + (string \<times> json list) list" where
  "group_loop ToString [] operations = Inr operations"
| "group_loop ToString (lg # rest) operations =
     (case group_step ToString lg operations of
        Inl e \<Rightarrow> Inl e
      | Inr operations1 \<Rightarrow> group_loop ToString rest operations1)"

text \<open>
  What \<^verbatim>\<open>perfCommand\<close> prints: the number of matching entries in the heading, and under
  ``Performance by operation'' one block for each group with a non-empty array: its
  name, \<^verbatim>\<open>durations.length\<close> as the count, and the average, minimum and maximum of the
  array, which is kept here as it is.  The result pairs the number in the heading with
  the list of blocks.
\<close>

type_synonym perf_group = "string \<times> nat \<times> json list"

definition report :: "(string \<times> json list) list \<Rightarrow> perf_group list" where
  "report operations =
     map (\<lambda>(op, durations). (op, length durations, durations))
       (filter (\<lambda>(op, durations). length durations > 0) operations)"

definition perfCommand :: "(json \<Rightarrow> string) \<Rightarrow> json list \<Rightarrow> error + nat \<times> perf_group list" where
  "perfCommand ToString logs =
     (if length (perfLogs logs) = 0 then Inr (0, [])
      else case group_loop ToString (perfLogs logs) [] of
             Inl e \<Rightarrow> Inl e
           | Inr operations \<Rightarrow> Inr (length (perfLogs logs), report operations))"


text \<open>The error test of \<^verbatim>\<open>errorsCommand\<close> throws on an entry.\<close>

definition errors_throws :: "json \<Rightarrow> bool" where
  "errors_throws lg = isl (errors_isError lg)"

text \<open>
  For stating what the grouping loop computes: \<open>pushed lg\<close> is what one matching entry
  adds to its group's array (its value if truthy, nothing otherwise), and
  \<open>group_values ToString op logs\<close> collects, in order, what the entries named \<open>op\<close> add.
\<close>

definition pushed :: "json \<Rightarrow> json list" where
  "pushed lg =
     (case duration_of lg of
        None \<Rightarrow> []
      | Some duration \<Rightarrow> if truthy (Some duration) then [duration] else [])"

definition group_values :: "(json \<Rightarrow> string) \<Rightarrow> string \<Rightarrow> json list \<Rightarrow> json list" where
  "group_values ToString op logs =
     concat (map pushed (filter (\<lambda>lg. op_key ToString lg = op) logs))"

text \<open>
  The candidate test in the specification's words, ``its first non-whitespace character
  is \<^verbatim>\<open>{\<close>'', to compare with the reader's own test.
\<close>

definition spec_candidate :: "string \<Rightarrow> bool" where
  "spec_candidate line =
     (case dropWhile (\<lambda>c. c \<in> set [CHR '' '', CHR 0x09, CHR 0x0B, CHR 0x0C, CHR 0x0D]) line of
        [] \<Rightarrow> False
      | c # rest \<Rightarrow> c = CHR ''{'')"

section \<open>Properties of the writer\<close>

subsection \<open>Loops in closed form\<close>

lemma put_own_fresh: "key \<notin> set (map fst kvs) \<Longrightarrow> put_own kvs key v = kvs @ [(key, v)]"
  by (induction kvs) auto

lemma obj_set_fresh:
  "key \<noteq> ''__proto__'' \<Longrightarrow> key \<notin> set (map fst kvs) \<Longrightarrow> obj_set kvs key v = kvs @ [(key, v)]"
  by (simp add: obj_set_def put_own_fresh)

lemma obj_set_proto: "obj_set kvs ''__proto__'' v = kvs"
  by (simp add: obj_set_def)

lemma key_in_get: "key_in key d \<longleftrightarrow> get d key \<noteq> None"
  by (cases d) (auto simp: map_of_eq_None_iff)

text \<open>
  On an object with distinct keys, none of the first eleven being the marker's name, the
  loop of \<^verbatim>\<open>truncate\<close> copies the entries the counter lets through, except one named
  \<^verbatim>\<open>__proto__\<close>, and then adds the marker if an entry is left over.
\<close>

lemma truncate_entries_closed:
  "distinct (map fst (acc @ kvs)) \<Longrightarrow> ''...'' \<notin> set (map fst (acc @ take (11 - count) kvs))
   \<Longrightarrow> truncate_entries f kvs count acc =
       acc @ map (\<lambda>(k, v). (k, f v)) (filter (\<lambda>(k, v). k \<noteq> ''__proto__'') (take (11 - count) kvs))
           @ (if 11 - count < length kvs then [(''...'', JStr ''truncated'')] else [])"
proof (induction kvs arbitrary: count acc)
  case Nil
  then show ?case by simp
next
  case (Cons kv kvs)
  obtain k v where kv: "kv = (k, v)" by (cases kv)
  show ?case
  proof (cases "count > 10")
    case True
    with Cons.prems show ?thesis by (simp add: kv obj_set_fresh)
  next
    case False
    then have c: "11 - count = Suc (11 - (count + 1))" by simp
    let ?acc = "obj_set acc k (f v)"
    have fresh: "k \<notin> set (map fst acc)" using Cons.prems(1) by (auto simp: kv)
    have acc: "?acc = acc @ (if k = ''__proto__'' then [] else [(k, f v)])"
      using fresh by (simp add: obj_set_fresh obj_set_proto)
    have d: "distinct (map fst (?acc @ kvs))" using Cons.prems(1) by (simp add: kv acc)
    have n: "''...'' \<notin> set (map fst (?acc @ take (11 - (count + 1)) kvs))"
      using Cons.prems(2) unfolding c by (auto simp: kv acc)
    have "truncate_entries f (kv # kvs) count acc = truncate_entries f kvs (count + 1) ?acc"
      using False by (simp add: kv)
    also have "\<dots> = ?acc @ map (\<lambda>(k, v). (k, f v))
             (filter (\<lambda>(k, v). k \<noteq> ''__proto__'') (take (11 - (count + 1)) kvs))
           @ (if 11 - (count + 1) < length kvs then [(''...'', JStr ''truncated'')] else [])"
      by (rule Cons.IH[OF d n])
    also have "\<dots> = acc @ map (\<lambda>(k, v). (k, f v))
             (filter (\<lambda>(k, v). k \<noteq> ''__proto__'') (take (11 - count) (kv # kvs)))
           @ (if 11 - count < length (kv # kvs) then [(''...'', JStr ''truncated'')] else [])"
      unfolding c acc by (simp add: kv)
    finally show ?thesis .
  qed
qed

lemma length_filter_key:
  "distinct (map fst kvs) \<Longrightarrow>
   length (filter (\<lambda>(k, v). k \<noteq> key) kvs) =
     (if key \<in> set (map fst kvs) then length kvs - 1 else length kvs)"
proof (induction kvs)
  case Nil
  then show ?case by simp
next
  case (Cons kv kvs)
  obtain k v where kv: "kv = (k, v)" by (cases kv)
  have n: "key \<in> set (map fst kvs) \<Longrightarrow> length kvs \<noteq> 0" by auto
  show ?case using Cons n by (auto simp: kv)
qed

text \<open>The allow-list loop of \<^verbatim>\<open>processData\<close> collects, in its own order, the keys the payload has.\<close>

lemma copy_essential_closed:
  "distinct (map fst acc @ keys) \<Longrightarrow> ''__proto__'' \<notin> set keys \<Longrightarrow>
   copy_essential d keys acc = acc @ List.map_filter (\<lambda>key. map_option (Pair key) (get d key)) keys"
proof (induction keys arbitrary: acc)
  case Nil
  then show ?case by simp
next
  case (Cons key keys)
  have fresh: "key \<notin> set (map fst acc)" "key \<noteq> ''__proto__''" using Cons.prems by auto
  have p: "''__proto__'' \<notin> set keys" using Cons.prems by simp
  show ?case
  proof (cases "get d key")
    case None
    have "distinct (map fst acc @ keys)" using Cons.prems by simp
    then show ?thesis using None p by (simp add: key_in_get Cons.IH)
  next
    case (Some v)
    have "distinct (map fst (acc @ [(key, v)]) @ keys)" using Cons.prems by simp
    then have "copy_essential d keys (acc @ [(key, v)]) =
                 (acc @ [(key, v)]) @ List.map_filter (\<lambda>key. map_option (Pair key) (get d key)) keys"
      using p by (rule Cons.IH)
    then show ?thesis using Some by (simp add: key_in_get obj_set_fresh[OF fresh(2) fresh(1)])
  qed
qed

lemma map_filter_empty_iff: "List.map_filter f xs = [] \<longleftrightarrow> (\<forall>x\<in>set xs. f x = None)"
  by (induction xs) (auto split: option.splits)

text \<open>
  The \<^verbatim>\<open>forEach\<close> of \<^verbatim>\<open>flush\<close>: when the entries serialize to the lines \<open>ls\<close>, it writes one
  chunk for each and runs to the end; when the entries before \<open>bad\<close> serialize to \<open>ls\<close>
  and \<open>bad\<close> makes the serializer throw, it has written those chunks and stops.
\<close>

lemma forEach_write_completes:
  "map S es = map Some ls \<Longrightarrow>
   forEach_write S es w = (w\<lparr>target := target w @ map (\<lambda>l. l @ [CHR 0x0A]) ls\<rparr>, True)"
proof (induction es arbitrary: ls w)
  case Nil
  then show ?case by simp
next
  case (Cons e es)
  then obtain l ls' where ls: "ls = l # ls'" "S e = Some l" "map S es = map Some ls'"
    by (cases ls) auto
  from Cons.IH[OF ls(3)] show ?case by (simp add: ls stream_write_def)
qed

lemma forEach_write_throws:
  "map S pre = map Some ls \<Longrightarrow> S bad = None \<Longrightarrow>
   forEach_write S (pre @ bad # post) w =
     (w\<lparr>target := target w @ map (\<lambda>l. l @ [CHR 0x0A]) ls\<rparr>, False)"
proof (induction pre arbitrary: ls w)
  case Nil
  then show ?case by simp
next
  case (Cons e es)
  then obtain l ls' where ls: "ls = l # ls'" "S e = Some l" "map S es = map Some ls'"
    by (cases ls) auto
  from Cons.IH[OF ls(3) Cons.prems(2)] show ?case by (simp add: ls stream_write_def)
qed

lemma flush_closed_stream: "\<not> fileStream w \<Longrightarrow> flush S w = w"
  by (simp add: flush_def)

lemma shouldWrite_performance: "shouldWrite m ''performance'' d"
  by (cases m) (simp_all add: shouldWrite_def)

text \<open>With the stream closed, a step only ever appends to the buffer.\<close>

lemma step_closed_stream:
  assumes "\<not> fileStream w"
  shows "\<not> fileStream (step S x w) \<and> target (step S x w) = target w \<and>
         buffer (step S x w) =
           buffer w @ (case x of Write now ns msg d \<Rightarrow>
                          if shouldWrite (mode w) ns d then [make_entry now ns msg d w] else []
                       | _ \<Rightarrow> [])"
  using assms
  by (cases x) (simp_all add: write_entry_def flush_closed_stream setRequestId_def destroy_def Let_def)

lemma run_closed_stream:
  "\<not> fileStream w \<Longrightarrow>
   \<not> fileStream (run S ops w) \<and> target (run S ops w) = target w \<and>
   (\<exists>ys. buffer (run S ops w) = buffer w @ ys)"
proof (induction ops arbitrary: w)
  case Nil
  then show ?case by simp
next
  case (Cons x xs)
  from step_closed_stream[OF Cons.prems, of S x]
  obtain zs where s: "\<not> fileStream (step S x w)" "target (step S x w) = target w"
     "buffer (step S x w) = buffer w @ zs" by blast
  from Cons.IH[OF s(1)] s(2,3) show ?case by auto
qed

lemma run_replicate_closed_stream:
  "\<not> fileStream w \<Longrightarrow>
   length (buffer (run S (replicate n (Write now ''performance'' msg d)) w)) = length (buffer w) + n"
proof (induction n arbitrary: w)
  case 0
  then show ?case by simp
next
  case (Suc n)
  let ?w = "step S (Write now ''performance'' msg d) w"
  from step_closed_stream[OF Suc.prems, of S "Write now ''performance'' msg d"]
  have s: "\<not> fileStream ?w" "length (buffer ?w) = length (buffer w) + 1"
    by (simp_all add: shouldWrite_performance)
  from Suc.IH[OF s(1)] s(2) show ?case by simp
qed

subsection \<open>The scenario with threshold 2\<close>

text \<open>
  Claim C1.  A writer is made with mode minimal and threshold 2 on a target that opens.
  The first call, in namespace \<^verbatim>\<open>performance\<close>, is buffered and nothing reaches the
  file.  The second call, in namespace \<^verbatim>\<open>debug\<close> and with no data, is rejected: the
  writer is exactly as before.  The third call, in namespace \<^verbatim>\<open>performance\<close>, brings
  the buffer to the threshold and flushes it inside the call: the file then holds the
  session header followed by exactly the two accepted entries, one line each, and the
  buffer is empty.  (\<open>l1\<close> and \<open>l2\<close> are the serializations of the two entries, which hold
  nothing the serializer throws on.)
\<close>

theorem scenario_minimal_threshold_2:
  fixes S :: "DebugFileEntry \<Rightarrow> string option" and P t0 t1 t2 t3 l1 l2 :: string
  defines "w0 \<equiv> new_DebugFileWriter True t0
                   \<lparr>cfg_path = Some P, cfg_mode = Some minimal, cfg_maxBufferSize = Some 2\<rparr>"
  defines "w1 \<equiv> write_entry S t1 ''performance'' ''op1'' (Some (JObj [(''duration'', JNum 10)])) w0"
  defines "w2 \<equiv> write_entry S t2 ''debug'' ''x'' None w1"
  defines "w3 \<equiv> write_entry S t3 ''performance'' ''op2'' (Some (JObj [(''duration'', JNum 20)])) w2"
  defines "e1 \<equiv> \<lparr>timestamp = t1, namespace = ''performance'', message = ''op1'',
                  data = Some (JObj [(''duration'', JNum 10)]), metadata = None\<rparr>"
  defines "e2 \<equiv> \<lparr>timestamp = t3, namespace = ''performance'', message = ''op2'',
                  data = Some (JObj [(''duration'', JNum 20)]), metadata = None\<rparr>"
  assumes "S e1 = Some l1" and "S e2 = Some l2"
  shows "target w0 = [CHR 0x0A # ''--- Debug session started at '' @ t0 @ '' ---'' @ [CHR 0x0A]] \<and>
         buffer w1 = [e1] \<and> target w1 = target w0 \<and>
         shouldWrite minimal ''debug'' None = False \<and> w2 = w1 \<and>
         buffer w3 = [] \<and>
         target w3 = target w0 @ [l1 @ [CHR 0x0A], l2 @ [CHR 0x0A]]"
  using assms(7,8) unfolding w0_def w1_def w2_def w3_def e1_def e2_def
  by (simp add: new_DebugFileWriter_def initializeFile_def write_entry_def make_entry_def
      shouldWrite_def processData_def essential_keys_def obj_set_def flush_def stream_write_def
      Let_def)

theorem scenario_minimal_threshold_2_witness:
  "target (write_entry (\<lambda>e. Some (message e)) ''t3'' ''performance'' ''op2''
            (Some (JObj [(''duration'', JNum 20)]))
     (write_entry (\<lambda>e. Some (message e)) ''t2'' ''debug'' ''x'' None
       (write_entry (\<lambda>e. Some (message e)) ''t1'' ''performance'' ''op1''
            (Some (JObj [(''duration'', JNum 10)]))
         (new_DebugFileWriter True ''t0''
            \<lparr>cfg_path = Some ''/tmp/p.log'', cfg_mode = Some minimal, cfg_maxBufferSize = Some 2\<rparr>))))
   = [CHR 0x0A # ''--- Debug session started at t0 ---'' @ [CHR 0x0A],
      ''op1'' @ [CHR 0x0A], ''op2'' @ [CHR 0x0A]]"
proof -
  have s1: "(\<lambda>e. Some (message e))
              \<lparr>timestamp = ''t1'', namespace = ''performance'', message = ''op1'',
                 data = Some (JObj [(''duration'', JNum 10)]), metadata = None\<rparr> = Some ''op1''"
    by simp
  have s2: "(\<lambda>e. Some (message e))
              \<lparr>timestamp = ''t3'', namespace = ''performance'', message = ''op2'',
                 data = Some (JObj [(''duration'', JNum 20)]), metadata = None\<rparr> = Some ''op2''"
    by simp
  note h = scenario_minimal_threshold_2 [OF s1 s2, of "''t0''" "''/tmp/p.log''" "''t2''"]
  from h have rejected: "write_entry (\<lambda>e. Some (message e)) ''t2'' ''debug'' ''x'' None
       (write_entry (\<lambda>e. Some (message e)) ''t1'' ''performance'' ''op1''
            (Some (JObj [(''duration'', JNum 10)]))
         (new_DebugFileWriter True ''t0''
            \<lparr>cfg_path = Some ''/tmp/p.log'', cfg_mode = Some minimal, cfg_maxBufferSize = Some 2\<rparr>))
     = write_entry (\<lambda>e. Some (message e)) ''t1'' ''performance'' ''op1''
            (Some (JObj [(''duration'', JNum 10)]))
         (new_DebugFileWriter True ''t0''
            \<lparr>cfg_path = Some ''/tmp/p.log'', cfg_mode = Some minimal, cfg_maxBufferSize = Some 2\<rparr>)"
    by blast
  from h show ?thesis unfolding rejected by simp
qed

subsection \<open>Shaping in detailed mode\<close>

text \<open>
  Claim C3, as stated: a mapping of 15 keys written under detailed mode is persisted
  with 11 keys, the 11th being the truncation marker.  On the mapping with the keys
  \<^verbatim>\<open>a\<close> to \<^verbatim>\<open>o\<close> the entry's data has 12 keys: the 11th is \<^verbatim>\<open>k\<close>, the eleventh
  key of the payload, and the marker is the 12th.
\<close>

theorem detailed_15_keys_counterexample:
  "map_option Object_keys
     (data (make_entry ''t'' ''api'' ''m''
        (Some (JObj [(''a'', JNum 1), (''b'', JNum 2), (''c'', JNum 3), (''d'', JNum 4), (''e'', JNum 5),
                     (''f'', JNum 6), (''g'', JNum 7), (''h'', JNum 8), (''i'', JNum 9), (''j'', JNum 10),
                     (''k'', JNum 11), (''l'', JNum 12), (''m'', JNum 13), (''n'', JNum 14),
                     (''o'', JNum 15)]))
        (new_DebugFileWriter True ''t0''
           \<lparr>cfg_path = None, cfg_mode = Some detailed, cfg_maxBufferSize = None\<rparr>)))
   = Some [''a'', ''b'', ''c'', ''d'', ''e'', ''f'', ''g'', ''h'', ''i'', ''j'', ''k'', ''...'']"
  by (simp add: make_entry_def new_DebugFileWriter_def initializeFile_def processData_def
      truncate.simps obj_set_def)

text \<open>
  Claim C3, amended.  For every entry written under detailed mode whose payload is a
  mapping of 15 (distinct) keys, none of the first 11 being \<^verbatim>\<open>...\<close>, the persisted
  mapping holds the first 11 keys of the payload in their order, each with its value
  truncated one level down, except that a key named \<^verbatim>\<open>__proto__\<close> is not copied, and
  then the marker \<^verbatim>\<open>"...": "truncated"\<close> as its last key.  It has 12 keys, the marker
  being the 12th; only when \<^verbatim>\<open>__proto__\<close> is one of the first 11 keys of the payload does
  it have 11.
\<close>

theorem detailed_15_keys:
  assumes "mode w = detailed"
    and "distinct (map fst kvs)"
    and "length kvs = 15"
    and "''...'' \<notin> set (map fst (take 11 kvs))"
  shows "data (make_entry now ns msg (Some (JObj kvs)) w) =
           Some (JObj (map (\<lambda>(k, v). (k, truncate v 3 1))
                         (filter (\<lambda>(k, v). k \<noteq> ''__proto__'') (take 11 kvs))
                       @ [(''...'', JStr ''truncated'')]))
         \<and> map_option (length \<circ> Object_keys) (data (make_entry now ns msg (Some (JObj kvs)) w)) =
             Some (if ''__proto__'' \<in> set (map fst (take 11 kvs)) then 11 else 12)"
proof -
  let ?kept = "filter (\<lambda>(k, v). k \<noteq> ''__proto__'') (take 11 kvs)"
  have "truncate_entries (\<lambda>v. truncate v 3 1) kvs 0 [] =
          map (\<lambda>(k, v). (k, truncate v 3 1)) ?kept @ [(''...'', JStr ''truncated'')]"
    using assms truncate_entries_closed[of "[]" kvs 0 "\<lambda>v. truncate v 3 1"] by simp
  then have d: "data (make_entry now ns msg (Some (JObj kvs)) w) =
           Some (JObj (map (\<lambda>(k, v). (k, truncate v 3 1)) ?kept @ [(''...'', JStr ''truncated'')]))"
    using assms(1) by (simp add: make_entry_def processData_def truncate.simps[of "JObj kvs"])
  have "distinct (map fst (take 11 kvs))"
    using assms(2) by (simp add: take_map[symmetric] distinct_take)
  from length_filter_key[OF this, of "''__proto__''"] assms(3)
  have "length ?kept = (if ''__proto__'' \<in> set (map fst (take 11 kvs)) then 10 else 11)"
    by simp
  with d show ?thesis by simp
qed

theorem detailed_15_keys_witness:
  "data (make_entry ''t'' ''api'' ''m''
        (Some (JObj [(''a'', JNum 1), (''b'', JNum 2), (''c'', JNum 3), (''d'', JNum 4), (''e'', JNum 5),
                     (''f'', JNum 6), (''g'', JNum 7), (''h'', JNum 8), (''i'', JNum 9), (''j'', JNum 10),
                     (''k'', JNum 11), (''l'', JNum 12), (''m'', JNum 13), (''n'', JNum 14),
                     (''o'', JNum 15)]))
        \<lparr>path = ''p'', mode = detailed, buffer = [], maxBufferSize = 100, flushInterval = True,
           fileStream = True, currentRequestId = None, target = []\<rparr>)
   = Some (JObj [(''a'', JNum 1), (''b'', JNum 2), (''c'', JNum 3), (''d'', JNum 4), (''e'', JNum 5),
                 (''f'', JNum 6), (''g'', JNum 7), (''h'', JNum 8), (''i'', JNum 9), (''j'', JNum 10),
                 (''k'', JNum 11), (''...'', JStr ''truncated'')]) \<and>
   data (make_entry ''t'' ''api'' ''m''
        (Some (JObj [(''a'', JNum 1), (''b'', JNum 2), (''__proto__'', JObj [(''x'', JNum 3)]), (''d'', JNum 4),
                     (''e'', JNum 5), (''f'', JNum 6), (''g'', JNum 7), (''h'', JNum 8), (''i'', JNum 9),
                     (''j'', JNum 10), (''k'', JNum 11), (''l'', JNum 12), (''m'', JNum 13),
                     (''n'', JNum 14), (''o'', JNum 15)]))
        \<lparr>path = ''p'', mode = detailed, buffer = [], maxBufferSize = 100, flushInterval = True,
           fileStream = True, currentRequestId = None, target = []\<rparr>)
   = Some (JObj [(''a'', JNum 1), (''b'', JNum 2), (''d'', JNum 4), (''e'', JNum 5),
                 (''f'', JNum 6), (''g'', JNum 7), (''h'', JNum 8), (''i'', JNum 9), (''j'', JNum 10),
                 (''k'', JNum 11), (''...'', JStr ''truncated'')])"
proof -
  let ?kvs = "[(''a'', JNum 1), (''b'', JNum 2), (''c'', JNum 3), (''d'', JNum 4), (''e'', JNum 5),
                     (''f'', JNum 6), (''g'', JNum 7), (''h'', JNum 8), (''i'', JNum 9), (''j'', JNum 10),
                     (''k'', JNum 11), (''l'', JNum 12), (''m'', JNum 13), (''n'', JNum 14),
                     (''o'', JNum 15)]"
  let ?kvp = "[(''a'', JNum 1), (''b'', JNum 2), (''__proto__'', JObj [(''x'', JNum 3)]), (''d'', JNum 4),
                     (''e'', JNum 5), (''f'', JNum 6), (''g'', JNum 7), (''h'', JNum 8), (''i'', JNum 9),
                     (''j'', JNum 10), (''k'', JNum 11), (''l'', JNum 12), (''m'', JNum 13),
                     (''n'', JNum 14), (''o'', JNum 15)]"
  let ?w = "\<lparr>path = ''p'', mode = detailed, buffer = [], maxBufferSize = 100, flushInterval = True,
           fileStream = True, currentRequestId = None, target = []\<rparr>"
  have h1: "mode ?w = detailed" by simp
  have h2: "distinct (map fst ?kvs)" "distinct (map fst ?kvp)" by simp_all
  have h3: "length ?kvs = 15" "length ?kvp = 15" by simp_all
  have h4: "''...'' \<notin> set (map fst (take 11 ?kvs))" "''...'' \<notin> set (map fst (take 11 ?kvp))"
    by simp_all
  from detailed_15_keys[OF h1 h2(1) h3(1) h4(1), of "''t''" "''api''" "''m''"]
       detailed_15_keys[OF h1 h2(2) h3(2) h4(2), of "''t''" "''api''" "''m''"]
  show ?thesis by (simp add: truncate.simps)
qed

subsection \<open>Shaping in minimal mode\<close>

text \<open>
  Claim C4: under minimal mode the shaping keeps only the allow-list keys, and whenever
  none of them is present in the payload the entry is written without a data field.
  The code misses this for a payload that is not a non-null object.  The call
  \<^verbatim>\<open>write("performance", "op", 42)\<close> is accepted for its namespace and its payload has
  none of the keys, yet \<^verbatim>\<open>processData\<close> leaves its minimal branch and reaches the return
  that the source comments as the one of full mode: the entry carries the data \<^verbatim>\<open>42\<close>.  A
  \<^verbatim>\<open>null\<close> payload is kept in the same way, while an object or an array without the keys
  is dropped as the claim says.
\<close>

theorem minimal_scalar_payload_kept:
  "shouldWrite minimal ''performance'' (Some (JNum 42)) \<and>
   List.filter (\<lambda>key. key_in key (JNum 42)) essential_keys = [] \<and>
   data (make_entry ''t'' ''performance'' ''op'' (Some (JNum 42))
           (new_DebugFileWriter True ''t0''
              \<lparr>cfg_path = None, cfg_mode = Some minimal, cfg_maxBufferSize = None\<rparr>))
     = Some (JNum 42) \<and>
   data (make_entry ''t'' ''performance'' ''op'' (Some JNull)
           (new_DebugFileWriter True ''t0''
              \<lparr>cfg_path = None, cfg_mode = Some minimal, cfg_maxBufferSize = None\<rparr>))
     = Some JNull \<and>
   data (make_entry ''t'' ''performance'' ''op'' (Some (JArr [JNum 1, JNum 2]))
           (new_DebugFileWriter True ''t0''
              \<lparr>cfg_path = None, cfg_mode = Some minimal, cfg_maxBufferSize = None\<rparr>))
     = None \<and>
   data (make_entry ''t'' ''performance'' ''op'' (Some (JObj [(''x'', JNum 42)]))
           (new_DebugFileWriter True ''t0''
              \<lparr>cfg_path = None, cfg_mode = Some minimal, cfg_maxBufferSize = None\<rparr>))
     = None"
  by (simp add: shouldWrite_def essential_keys_def make_entry_def new_DebugFileWriter_def
      initializeFile_def processData_def)

theorem minimal_scalar_payload_kept_witness:
  "data (make_entry ''t'' ''performance'' ''op'' (Some (JNum 42))
           (new_DebugFileWriter True ''t0''
              \<lparr>cfg_path = None, cfg_mode = Some minimal, cfg_maxBufferSize = None\<rparr>))
     \<noteq> None"
  using minimal_scalar_payload_kept by simp

text \<open>
  On a payload that is a non-null object (a mapping or an array) the shaping does what
  C4 says: the entry's data is a new mapping holding exactly the allow-list keys
  \<^verbatim>\<open>duration, elapsed, timing, error, status, count\<close> that the payload has, in that order
  and with the payload's values, and the entry has no data field exactly when the
  payload has none of those keys.
\<close>

lemma minimal_object_payload:
  assumes "mode w = minimal"
    and "typeof_object d"
    and "d \<noteq> JNull"
  shows "data (make_entry now ns msg (Some d) w) =
           (if \<forall>key\<in>set essential_keys. \<not> key_in key d then None
            else Some (JObj (List.map_filter (\<lambda>key. map_option (Pair key) (get d key)) essential_keys)))"
proof -
  let ?essential = "List.map_filter (\<lambda>key. map_option (Pair key) (get d key)) essential_keys"
  have e: "copy_essential d essential_keys [] = ?essential"
    using copy_essential_closed[of "[]" essential_keys d] by (simp add: essential_keys_def)
  have n: "?essential = [] \<longleftrightarrow> (\<forall>key\<in>set essential_keys. \<not> key_in key d)"
    by (simp add: map_filter_empty_iff key_in_get)
  have "data (make_entry now ns msg (Some d) w) =
          (if ?essential = [] then None else Some (JObj ?essential))"
    using assms by (simp add: make_entry_def processData_def e Let_def)
  then show ?thesis unfolding n .
qed

lemma minimal_object_payload_example:
  "data (make_entry ''t'' ''api'' ''Request completed''
           (Some (JObj [(''method'', JStr ''GET''), (''status'', JNum 200), (''duration'', JNum 45)]))
           \<lparr>path = ''p'', mode = minimal, buffer = [], maxBufferSize = 100, flushInterval = True,
           fileStream = True, currentRequestId = None, target = []\<rparr>)
     = Some (JObj [(''duration'', JNum 45), (''status'', JNum 200)]) \<and>
   data (make_entry ''t'' ''timing'' ''tick''
           (Some (JObj [(''method'', JStr ''GET'')]))
           \<lparr>path = ''p'', mode = minimal, buffer = [], maxBufferSize = 100, flushInterval = True,
           fileStream = True, currentRequestId = None, target = []\<rparr>)
     = None"
proof -
  let ?w = "\<lparr>path = ''p'', mode = minimal, buffer = [], maxBufferSize = 100, flushInterval = True,
           fileStream = True, currentRequestId = None, target = []\<rparr>"
  let ?d1 = "JObj [(''method'', JStr ''GET''), (''status'', JNum 200), (''duration'', JNum 45)]"
  let ?d2 = "JObj [(''method'', JStr ''GET'')]"
  have m: "mode ?w = minimal" by simp
  have o1: "typeof_object ?d1" "?d1 \<noteq> JNull" by simp_all
  have o2: "typeof_object ?d2" "?d2 \<noteq> JNull" by simp_all
  from minimal_object_payload[OF m o1, of "''t''" "''api''" "''Request completed''"]
       minimal_object_payload[OF m o2, of "''t''" "''timing''" "''tick''"]
  show ?thesis by (simp add: essential_keys_def)
qed

subsection \<open>Flushing\<close>

text \<open>
  Claim C9, as stated: unless the buffer is empty or the target unavailable, \<^verbatim>\<open>flush\<close>
  serializes every buffered entry, appends the lines and then clears the buffer, so that
  each accepted entry is written exactly once.  A writer in full mode is given
  \<^verbatim>\<open>write("api", "first")\<close> and then \<^verbatim>\<open>write("api", "big", 10n)\<close>, whose payload is a
  \<^verbatim>\<open>BigInt\<close>, and is flushed twice.  The serializer throws on the second entry: each
  flush appends the line of the first entry and leaves both entries in the buffer, so the
  first entry is in the file twice and the buffer is never cleared.
\<close>

theorem flush_serializer_throws_counterexample:
  "target (run (\<lambda>e. case data e of Some (JBigInt n) \<Rightarrow> None | _ \<Rightarrow> Some (message e))
       [Write ''t1'' ''api'' ''first'' None, Write ''t2'' ''api'' ''big'' (Some (JBigInt 10)),
        Flush, Flush]
       (new_DebugFileWriter True ''t0''
          \<lparr>cfg_path = None, cfg_mode = Some full, cfg_maxBufferSize = None\<rparr>))
     = [CHR 0x0A # ''--- Debug session started at t0 ---'' @ [CHR 0x0A],
        ''first'' @ [CHR 0x0A], ''first'' @ [CHR 0x0A]] \<and>
   map message (buffer (run (\<lambda>e. case data e of Some (JBigInt n) \<Rightarrow> None | _ \<Rightarrow> Some (message e))
       [Write ''t1'' ''api'' ''first'' None, Write ''t2'' ''api'' ''big'' (Some (JBigInt 10)),
        Flush, Flush]
       (new_DebugFileWriter True ''t0''
          \<lparr>cfg_path = None, cfg_mode = Some full, cfg_maxBufferSize = None\<rparr>)))
     = [''first'', ''big'']"
  by (simp add: new_DebugFileWriter_def initializeFile_def write_entry_def make_entry_def
      shouldWrite_def processData_def flush_def stream_write_def Let_def)

text \<open>
  Claim C9, amended.  \<^verbatim>\<open>flush\<close> changes nothing when the buffer is empty or the stream is
  not open.  Otherwise it serializes the buffered entries in buffer order and appends to
  the target one chunk for each, the serialization followed by a newline.  When every
  entry serializes (to the lines \<open>ls\<close>), all of them are appended, the buffer is then
  emptied and the rest of the writer is left alone; a second flush right after writes
  nothing, so each entry is in the file once.  When serializing an entry throws, the
  chunks of the entries before it stay appended, the error is caught, and the buffer is
  left as it was, so that the next flush starts over with the same entries.
\<close>

theorem flush_appends_buffer:
  "(buffer w = [] \<or> \<not> fileStream w \<longrightarrow> flush S w = w) \<and>
   (buffer w \<noteq> [] \<and> fileStream w \<and> map S (buffer w) = map Some ls \<longrightarrow>
      flush S w = w\<lparr>buffer := [], target := target w @ map (\<lambda>l. l @ [CHR 0x0A]) ls\<rparr> \<and>
      flush S (flush S w) = flush S w) \<and>
   (fileStream w \<and> buffer w = pre @ bad # post \<and> map S pre = map Some ls \<and> S bad = None \<longrightarrow>
      flush S w = w\<lparr>target := target w @ map (\<lambda>l. l @ [CHR 0x0A]) ls\<rparr>)"
proof -
  have a: "buffer w = [] \<or> \<not> fileStream w \<longrightarrow> flush S w = w"
    by (auto simp: flush_def)
  have b: "flush S w = w\<lparr>buffer := [], target := target w @ map (\<lambda>l. l @ [CHR 0x0A]) ls\<rparr> \<and>
           flush S (flush S w) = flush S w"
    if "buffer w \<noteq> []" "fileStream w" "map S (buffer w) = map Some ls"
  proof -
    have "flush S w = w\<lparr>buffer := [], target := target w @ map (\<lambda>l. l @ [CHR 0x0A]) ls\<rparr>"
      using that by (simp add: flush_def forEach_write_completes[OF that(3)])
    then show ?thesis by (simp add: flush_def)
  qed
  have c: "flush S w = w\<lparr>target := target w @ map (\<lambda>l. l @ [CHR 0x0A]) ls\<rparr>"
    if "fileStream w" "buffer w = pre @ bad # post" "map S pre = map Some ls" "S bad = None"
    using that by (simp add: flush_def forEach_write_throws[OF that(3,4)])
  from a b c show ?thesis by blast
qed

theorem flush_appends_buffer_witness:
  "flush (\<lambda>e. Some (message e))
     \<lparr>path = ''p'', mode = full,
        buffer = [\<lparr>timestamp = ''t1'', namespace = ''api'', message = ''first'', data = None, metadata = None\<rparr>,
                  \<lparr>timestamp = ''t2'', namespace = ''db'', message = ''second'', data = None, metadata = None\<rparr>],
        maxBufferSize = 100, flushInterval = True, fileStream = True,
        currentRequestId = None, target = [''header'']\<rparr>
   = \<lparr>path = ''p'', mode = full, buffer = [], maxBufferSize = 100, flushInterval = True,
        fileStream = True, currentRequestId = None,
        target = [''header'', ''first'' @ [CHR 0x0A], ''second'' @ [CHR 0x0A]]\<rparr> \<and>
   flush (\<lambda>e. if message e = ''bad'' then None else Some (message e))
     \<lparr>path = ''p'', mode = full,
        buffer = [\<lparr>timestamp = ''t1'', namespace = ''api'', message = ''first'', data = None, metadata = None\<rparr>,
                  \<lparr>timestamp = ''t2'', namespace = ''db'', message = ''bad'', data = None, metadata = None\<rparr>,
                  \<lparr>timestamp = ''t3'', namespace = ''db'', message = ''third'', data = None, metadata = None\<rparr>],
        maxBufferSize = 100, flushInterval = True, fileStream = True,
        currentRequestId = None, target = [''header'']\<rparr>
   = \<lparr>path = ''p'', mode = full,
        buffer = [\<lparr>timestamp = ''t1'', namespace = ''api'', message = ''first'', data = None, metadata = None\<rparr>,
                  \<lparr>timestamp = ''t2'', namespace = ''db'', message = ''bad'', data = None, metadata = None\<rparr>,
                  \<lparr>timestamp = ''t3'', namespace = ''db'', message = ''third'', data = None, metadata = None\<rparr>],
        maxBufferSize = 100, flushInterval = True, fileStream = True,
        currentRequestId = None, target = [''header'', ''first'' @ [CHR 0x0A]]\<rparr> \<and>
   flush (\<lambda>e. Some (message e))
     \<lparr>path = ''p'', mode = full,
        buffer = [\<lparr>timestamp = ''t1'', namespace = ''api'', message = ''first'', data = None, metadata = None\<rparr>],
        maxBufferSize = 100, flushInterval = True, fileStream = False,
        currentRequestId = None, target = []\<rparr>
   = \<lparr>path = ''p'', mode = full,
        buffer = [\<lparr>timestamp = ''t1'', namespace = ''api'', message = ''first'', data = None, metadata = None\<rparr>],
        maxBufferSize = 100, flushInterval = True, fileStream = False,
        currentRequestId = None, target = []\<rparr>"
proof -
  let ?e1 = "\<lparr>timestamp = ''t1'', namespace = ''api'', message = ''first'', data = None, metadata = None\<rparr>"
  let ?e2 = "\<lparr>timestamp = ''t2'', namespace = ''db'', message = ''second'', data = None, metadata = None\<rparr>"
  let ?b2 = "\<lparr>timestamp = ''t2'', namespace = ''db'', message = ''bad'', data = None, metadata = None\<rparr>"
  let ?e3 = "\<lparr>timestamp = ''t3'', namespace = ''db'', message = ''third'', data = None, metadata = None\<rparr>"
  let ?S = "\<lambda>e. Some (message e)"
  let ?T = "\<lambda>e. if message e = ''bad'' then None else Some (message e)"
  let ?w1 = "\<lparr>path = ''p'', mode = full, buffer = [?e1, ?e2],
        maxBufferSize = 100, flushInterval = True, fileStream = True,
        currentRequestId = None, target = [''header'']\<rparr>"
  let ?w2 = "\<lparr>path = ''p'', mode = full, buffer = [?e1, ?b2, ?e3],
        maxBufferSize = 100, flushInterval = True, fileStream = True,
        currentRequestId = None, target = [''header'']\<rparr>"
  let ?w3 = "\<lparr>path = ''p'', mode = full, buffer = [?e1],
        maxBufferSize = 100, flushInterval = True, fileStream = False,
        currentRequestId = None, target = []\<rparr>"
  have 1: "buffer ?w1 \<noteq> [] \<and> fileStream ?w1 \<and> map ?S (buffer ?w1) = map Some [''first'', ''second'']"
    by simp
  have 2: "fileStream ?w2 \<and> buffer ?w2 = [?e1] @ ?b2 # [?e3] \<and> map ?T [?e1] = map Some [''first''] \<and>
           ?T ?b2 = None"
    by simp
  have 3: "buffer ?w3 = [] \<or> \<not> fileStream ?w3" by simp
  from flush_appends_buffer[of ?w1 ?S "[''first'', ''second'']"] 1
  have r1: "flush ?S ?w1 = ?w1\<lparr>buffer := [], target := target ?w1 @ map (\<lambda>l. l @ [CHR 0x0A]) [''first'', ''second'']\<rparr>"
    by blast
  from flush_appends_buffer[of ?w2 ?T "[''first'']" "[?e1]" ?b2 "[?e3]"] 2
  have r2: "flush ?T ?w2 = ?w2\<lparr>target := target ?w2 @ map (\<lambda>l. l @ [CHR 0x0A]) [''first'']\<rparr>"
    by blast
  from flush_appends_buffer[of ?w3 ?S] 3
  have r3: "flush ?S ?w3 = ?w3" by blast
  show ?thesis unfolding r1 r2 r3 by simp
qed

subsection \<open>A writer whose file could not be opened\<close>

text \<open>
  Claim C10.  When initialization fails the stream is \<^verbatim>\<open>null\<close>.  From any state with the
  stream \<^verbatim>\<open>null\<close>, whatever is done to the writer afterwards (calls of \<^verbatim>\<open>write\<close>,
  \<^verbatim>\<open>flush\<close>, \<^verbatim>\<open>setRequestId\<close> and \<^verbatim>\<open>destroy\<close>, ticks of the timer), the stream stays
  \<^verbatim>\<open>null\<close>, nothing is written to the target, and the buffer only grows at its end: no
  entry is ever removed.  One step appends the new entry if it is an accepted
  \<^verbatim>\<open>write\<close> and leaves the buffer as it is otherwise; in particular \<^verbatim>\<open>flush\<close> returns the
  writer unchanged.  The length is not bounded: \<open>n\<close> calls in namespace
  \<^verbatim>\<open>performance\<close>, which every mode accepts, make the buffer \<open>n\<close> entries longer,
  whatever the threshold.
\<close>

theorem closed_stream_buffer_only_grows:
  assumes "\<not> fileStream w"
  shows "\<not> fileStream (new_DebugFileWriter False t0 config) \<and>
         \<not> fileStream (run S ops w) \<and> target (run S ops w) = target w \<and>
         (\<exists>ys. buffer (run S ops w) = buffer w @ ys) \<and>
         buffer (step S x w) =
           buffer w @ (case x of Write now ns msg d \<Rightarrow>
                          if shouldWrite (mode w) ns d then [make_entry now ns msg d w] else []
                       | _ \<Rightarrow> []) \<and>
         flush S w = w \<and>
         length (buffer (run S (replicate n (Write t ''performance'' m v)) w)) = length (buffer w) + n"
proof -
  have "\<not> fileStream (new_DebugFileWriter False t0 config)"
    by (simp add: new_DebugFileWriter_def initializeFile_def)
  then show ?thesis
    using run_closed_stream[OF assms, of S ops] step_closed_stream[OF assms, of S x]
      flush_closed_stream[OF assms, of S] run_replicate_closed_stream[OF assms, of S n t m v]
    by simp
qed

theorem closed_stream_buffer_only_grows_witness:
  "maxBufferSize (new_DebugFileWriter False ''t0''
       \<lparr>cfg_path = None, cfg_mode = None, cfg_maxBufferSize = Some 2\<rparr>) = 2 \<and>
   length (buffer (run (\<lambda>e. Some (message e))
       [Write ''t1'' ''performance'' ''a'' None, Write ''t2'' ''performance'' ''a'' None, Flush, Tick,
        Write ''t3'' ''performance'' ''a'' None, Destroy, Write ''t4'' ''timing'' ''b'' None]
       (new_DebugFileWriter False ''t0''
          \<lparr>cfg_path = None, cfg_mode = None, cfg_maxBufferSize = Some 2\<rparr>))) = 4 \<and>
   length (buffer (run (\<lambda>e. Some (message e)) (replicate 3 (Write ''t'' ''performance'' ''a'' None))
       (new_DebugFileWriter False ''t0''
          \<lparr>cfg_path = None, cfg_mode = None, cfg_maxBufferSize = Some 2\<rparr>))) = 3"
proof -
  let ?w = "new_DebugFileWriter False ''t0'' \<lparr>cfg_path = None, cfg_mode = None, cfg_maxBufferSize = Some 2\<rparr>"
  have h: "\<not> fileStream ?w" by (simp add: new_DebugFileWriter_def initializeFile_def)
  have b: "buffer ?w = []" by (simp add: new_DebugFileWriter_def initializeFile_def)
  have "length (buffer (run (\<lambda>e. Some (message e)) (replicate 3 (Write ''t'' ''performance'' ''a'' None)) ?w)) =
          length (buffer ?w) + 3"
    using closed_stream_buffer_only_grows[OF h, of _ _ "\<lambda>e. Some (message e)" _ _ 3] by blast
  then show ?thesis
    by (simp add: b)
       (simp add: new_DebugFileWriter_def initializeFile_def write_entry_def shouldWrite_def
          flush_def destroy_def Let_def)
qed

section \<open>Properties of the reader\<close>

lemma read_lines_closed:
  "read_lines P lines logs =
     logs @ List.map_filter (\<lambda>line. if startsWith line ''{'' then P line else None) lines"
  by (induction lines arbitrary: logs) (auto split: option.splits)

lemma startsWith_brace: "startsWith line ''{'' \<longleftrightarrow> (\<exists>rest. line = CHR ''{'' # rest)"
  by (cases line) (auto simp: startsWith_def)

text \<open>
  Claim C7, as stated: a line is a candidate exactly when its first non-whitespace
  character is \<^verbatim>\<open>{\<close>.  The line \<^verbatim>\<open>  {}\<close>, two spaces before the brace, is one by that
  test, and the reader drops it even with a parser that accepts it.
\<close>

theorem indented_line_counterexample:
  "spec_candidate ''  {}'' \<and>
   \<not> startsWith ''  {}'' ''{'' \<and>
   readLogFile (\<lambda>line. Some (JObj [])) (Some [''  {}'']) = Inr []"
  by (simp add: spec_candidate_def startsWith_def readLogFile_def)

text \<open>
  Claim C7, amended.  For every line of the input, the reader treats the line as a
  candidate exactly when its first character is \<^verbatim>\<open>{\<close> (no whitespace is skipped).  The
  output is, in file order, the parse of every candidate line that parses; candidate
  lines that fail to parse and all other lines are skipped without an error.
\<close>

theorem reader_keeps_parsed_brace_lines:
  "readLogFile P (Some lines) =
     Inr (List.map_filter (\<lambda>line. if startsWith line ''{'' then P line else None) lines) \<and>
   (startsWith line ''{'' \<longleftrightarrow> (\<exists>rest. line = CHR ''{'' # rest))"
  using read_lines_closed[of P lines "[]"] startsWith_brace[of line]
  by (simp add: readLogFile_def)

theorem reader_keeps_parsed_brace_lines_witness:
  "readLogFile (\<lambda>line. if line = ''{\"a\":1}'' then Some (JObj [(''a'', JNum 1)])
                        else if line = ''{}'' then Some (JObj []) else None)
     (Some [''--- Debug session started at t ---'', ''{\"a\":1}'', ''{\"a\":'', '' {}'', ''{}''])
   = Inr [JObj [(''a'', JNum 1)], JObj []]"
  using reader_keeps_parsed_brace_lines[of
      "\<lambda>line. if line = ''{\"a\":1}'' then Some (JObj [(''a'', JNum 1)])
              else if line = ''{}'' then Some (JObj []) else None"
      "[''--- Debug session started at t ---'', ''{\"a\":1}'', ''{\"a\":'', '' {}'', ''{}'']"
      "''{}''"]
  by (simp add: startsWith_def)

subsection \<open>Reading, writing back and reading again\<close>



section \<open>Properties of the analysis commands\<close>

subsection \<open>Filtering with a test that may throw\<close>

lemma orE_Inr: "orE (Inr b) y = (if b then Inr True else y)"
  by (cases b) simp_all

lemma errors_isError_True:
  "errors_isError lg = Inr True \<longleftrightarrow>
      truthy (opt_get (get lg ''data'') ''error'') \<or>
      get lg ''level'' = Some (JStr ''error'') \<or>
      (\<exists>s. get lg ''message'' = Some (JStr s) \<and>
           (str_includes (toLowerCase s) ''error'' \<or> str_includes (toLowerCase s) ''failed'' \<or>
            str_includes (toLowerCase s) ''exception''))"
proof (cases "get lg ''message''")
  case None
  then show ?thesis by (simp add: errors_isError_def message_includes_def orE_Inr)
next
  case (Some v)
  then show ?thesis by (cases v) (auto simp: errors_isError_def message_includes_def orE_Inr)
qed

lemma analyze_isError_True:
  "analyze_isError lg = Inr True \<longleftrightarrow>
      truthy (opt_get (get lg ''data'') ''error'') \<or>
      (\<exists>s. get lg ''message'' = Some (JStr s) \<and>
           (str_includes (toLowerCase s) ''error'' \<or> str_includes (toLowerCase s) ''failed''))"
proof (cases "get lg ''message''")
  case None
  then show ?thesis by (simp add: analyze_isError_def message_includes_def orE_Inr)
next
  case (Some v)
  then show ?thesis by (cases v) (auto simp: analyze_isError_def message_includes_def orE_Inr)
qed

lemma errors_throws_iff:
  "errors_throws lg \<longleftrightarrow>
      \<not> truthy (opt_get (get lg ''data'') ''error'') \<and>
      get lg ''level'' \<noteq> Some (JStr ''error'') \<and>
      get lg ''message'' \<noteq> None \<and> get lg ''message'' \<noteq> Some JNull \<and>
      (\<forall>s. get lg ''message'' \<noteq> Some (JStr s))"
proof (cases "get lg ''message''")
  case None
  then show ?thesis
    by (simp add: errors_throws_def errors_isError_def message_includes_def orE_Inr)
next
  case (Some v)
  then show ?thesis
    by (cases v) (auto simp: errors_throws_def errors_isError_def message_includes_def orE_Inr)
qed

lemma errors_isError_error: "errors_isError lg = Inl e \<Longrightarrow> e = TypeError"
proof (cases "get lg ''message''")
  case None
  assume "errors_isError lg = Inl e"
  with None show ?thesis
    by (simp add: errors_isError_def message_includes_def orE_Inr split: if_splits)
next
  case (Some v)
  assume "errors_isError lg = Inl e"
  with Some show ?thesis
    by (cases v) (auto simp: errors_isError_def message_includes_def orE_Inr split: if_splits)
qed

lemma filterE_closed:
  "filterE errors_isError logs =
     (if \<exists>lg\<in>set logs. isl (errors_isError lg) then Inl TypeError
      else Inr (filter (\<lambda>lg. errors_isError lg = Inr True) logs))"
proof (induction logs)
  case Nil
  then show ?case by simp
next
  case (Cons lg logs)
  show ?case
  proof (cases "errors_isError lg")
    case (Inl e)
    then have "e = TypeError" by (rule errors_isError_error)
    with Inl show ?thesis by simp
  next
    case (Inr b)
    then show ?thesis using Cons.IH by (auto split: sum.splits)
  qed
qed

subsection \<open>The errors view\<close>

text \<open>
  Claim C2, as stated: the \<^verbatim>\<open>errors\<close> view selects with exactly the error test of
  \<^verbatim>\<open>summarize\<close>.  An entry whose message is \<^verbatim>\<open>Unhandled exception\<close> and an entry with
  \<^verbatim>\<open>level: "error"\<close>, neither with an error field nor with \<^verbatim>\<open>error\<close> or \<^verbatim>\<open>failed\<close> in
  the message, are both selected by \<^verbatim>\<open>errorsCommand\<close> and by neither test of
  \<^verbatim>\<open>analyzeCommand\<close>.
\<close>

theorem errors_view_counterexample:
  "errorsCommand
     [JObj [(''timestamp'', JStr ''t1''), (''namespace'', JStr ''api''), (''message'', JStr ''Unhandled exception'')],
      JObj [(''timestamp'', JStr ''t2''), (''namespace'', JStr ''api''), (''message'', JStr ''boom''),
            (''level'', JStr ''error'')]]
   = Inr
     [JObj [(''timestamp'', JStr ''t1''), (''namespace'', JStr ''api''), (''message'', JStr ''Unhandled exception'')],
      JObj [(''timestamp'', JStr ''t2''), (''namespace'', JStr ''api''), (''message'', JStr ''boom''),
            (''level'', JStr ''error'')]] \<and>
   analyze_errors
     [JObj [(''timestamp'', JStr ''t1''), (''namespace'', JStr ''api''), (''message'', JStr ''Unhandled exception'')],
      JObj [(''timestamp'', JStr ''t2''), (''namespace'', JStr ''api''), (''message'', JStr ''boom''),
            (''level'', JStr ''error'')]]
   = Inr []"
  by (simp add: errorsCommand_def analyze_errors_def errors_isError_def analyze_isError_def
      message_includes_def toLowerCase_def lower_char_def startsWith_def)

text \<open>
  Claim C2, amended.  The \<^verbatim>\<open>errors\<close> view selects an entry if and only if its data has a
  truthy (non-empty) error field, or its \<^verbatim>\<open>level\<close> is the string \<^verbatim>\<open>error\<close>, or its
  message is a string that case-insensitively contains \<^verbatim>\<open>error\<close>, \<^verbatim>\<open>failed\<close> or
  \<^verbatim>\<open>exception\<close>.  The test of \<^verbatim>\<open>summarize\<close> is the same without the \<^verbatim>\<open>level\<close> and
  \<^verbatim>\<open>exception\<close> cases, so every entry it selects is selected by the \<^verbatim>\<open>errors\<close> view.
  The test throws a \<^verbatim>\<open>TypeError\<close> on an entry exactly when the entry has no truthy error
  field, its level is not \<^verbatim>\<open>error\<close>, and its message is present and is neither
  \<^verbatim>\<open>null\<close> nor a string.  For every parsed log sequence with no such entry, the view
  returns the full set of selected entries in file order, with no limit; with such an
  entry the command fails with the \<^verbatim>\<open>TypeError\<close> and returns nothing.
\<close>

theorem errors_view_predicate:
  "(errors_isError lg = Inr True \<longleftrightarrow>
      truthy (opt_get (get lg ''data'') ''error'') \<or>
      get lg ''level'' = Some (JStr ''error'') \<or>
      (\<exists>s. get lg ''message'' = Some (JStr s) \<and>
           (str_includes (toLowerCase s) ''error'' \<or> str_includes (toLowerCase s) ''failed'' \<or>
            str_includes (toLowerCase s) ''exception''))) \<and>
   (analyze_isError lg = Inr True \<longleftrightarrow>
      truthy (opt_get (get lg ''data'') ''error'') \<or>
      (\<exists>s. get lg ''message'' = Some (JStr s) \<and>
           (str_includes (toLowerCase s) ''error'' \<or> str_includes (toLowerCase s) ''failed''))) \<and>
   (analyze_isError lg = Inr True \<longrightarrow> errors_isError lg = Inr True) \<and>
   (errors_throws lg \<longleftrightarrow>
      \<not> truthy (opt_get (get lg ''data'') ''error'') \<and>
      get lg ''level'' \<noteq> Some (JStr ''error'') \<and>
      get lg ''message'' \<noteq> None \<and> get lg ''message'' \<noteq> Some JNull \<and>
      (\<forall>s. get lg ''message'' \<noteq> Some (JStr s))) \<and>
   errorsCommand logs =
     (if \<exists>lg\<in>set logs. errors_throws lg then Inl TypeError
      else Inr (filter (\<lambda>lg. errors_isError lg = Inr True) logs))"
proof -
  note e = errors_isError_True[of lg]
  note a = analyze_isError_True[of lg]
  have s: "analyze_isError lg = Inr True \<longrightarrow> errors_isError lg = Inr True"
    unfolding a e by blast
  note t = errors_throws_iff[of lg]
  have g: "errorsCommand logs =
     (if \<exists>lg\<in>set logs. errors_throws lg then Inl TypeError
      else Inr (filter (\<lambda>lg. errors_isError lg = Inr True) logs))"
    unfolding errorsCommand_def errors_throws_def by (rule filterE_closed)
  from e a s t g show ?thesis by blast
qed

theorem errors_view_predicate_witness:
  "errorsCommand
     [JObj [(''timestamp'', JStr ''t1''), (''namespace'', JStr ''api''), (''message'', JStr ''Request failed'')],
      JObj [(''timestamp'', JStr ''t2''), (''namespace'', JStr ''api''), (''message'', JStr ''ok'')],
      JObj [(''timestamp'', JStr ''t3''), (''namespace'', JStr ''db''), (''message'', JStr ''query''),
            (''data'', JObj [(''error'', JStr ''timeout'')])]]
   = Inr
     [JObj [(''timestamp'', JStr ''t1''), (''namespace'', JStr ''api''), (''message'', JStr ''Request failed'')],
      JObj [(''timestamp'', JStr ''t3''), (''namespace'', JStr ''db''), (''message'', JStr ''query''),
            (''data'', JObj [(''error'', JStr ''timeout'')])]] \<and>
   errorsCommand
     [JObj [(''timestamp'', JStr ''t1''), (''namespace'', JStr ''api''), (''message'', JStr ''Request failed'')],
      JObj [(''timestamp'', JStr ''t2''), (''namespace'', JStr ''api''), (''message'', JNum 5)]]
   = Inl TypeError"
proof -
  let ?logs = "[JObj [(''timestamp'', JStr ''t1''), (''namespace'', JStr ''api''), (''message'', JStr ''Request failed'')],
      JObj [(''timestamp'', JStr ''t2''), (''namespace'', JStr ''api''), (''message'', JStr ''ok'')],
      JObj [(''timestamp'', JStr ''t3''), (''namespace'', JStr ''db''), (''message'', JStr ''query''),
            (''data'', JObj [(''error'', JStr ''timeout'')])]]"
  let ?bad = "[JObj [(''timestamp'', JStr ''t1''), (''namespace'', JStr ''api''), (''message'', JStr ''Request failed'')],
      JObj [(''timestamp'', JStr ''t2''), (''namespace'', JStr ''api''), (''message'', JNum 5)]]"
  have u: "\<And>l. errors_throws l \<longleftrightarrow>
      \<not> truthy (opt_get (get l ''data'') ''error'') \<and>
      get l ''level'' \<noteq> Some (JStr ''error'') \<and>
      get l ''message'' \<noteq> None \<and> get l ''message'' \<noteq> Some JNull \<and>
      (\<forall>s. get l ''message'' \<noteq> Some (JStr s))"
    using errors_view_predicate by blast
  have 1: "errorsCommand ?logs = Inr (filter (\<lambda>lg. errors_isError lg = Inr True) ?logs)"
    using errors_view_predicate[of _ ?logs] by (simp add: u)
  have 2: "errorsCommand ?bad = Inl TypeError"
    using errors_view_predicate[of _ ?bad] by (simp add: u)
  show ?thesis unfolding 1 2
    by (simp add: errors_isError_def message_includes_def toLowerCase_def lower_char_def
        startsWith_def)
qed

subsection \<open>The performance view\<close>

text \<open>
  Claim C6, as stated: the \<^verbatim>\<open>perf\<close> view selects with exactly the performance test of
  \<^verbatim>\<open>summarize\<close>, which holds if and only if the data contains a \<^verbatim>\<open>duration\<close>, \<^verbatim>\<open>elapsed\<close>
  or \<^verbatim>\<open>timing\<close> field.  An entry in namespace \<^verbatim>\<open>performance\<close> with no data is selected
  by \<^verbatim>\<open>perfCommand\<close> and not by \<^verbatim>\<open>analyzeCommand\<close>; and an entry whose data contains
  \<^verbatim>\<open>duration: 0\<close> is selected by neither.
\<close>

theorem perf_view_counterexample:
  "perf_isPerf (JObj [(''timestamp'', JStr ''t1''), (''namespace'', JStr ''performance''), (''message'', JStr ''tick'')]) \<and>
   \<not> analyze_isPerf (JObj [(''timestamp'', JStr ''t1''), (''namespace'', JStr ''performance''), (''message'', JStr ''tick'')]) \<and>
   key_in ''duration'' (JObj [(''duration'', JNum 0)]) \<and>
   \<not> perf_isPerf (JObj [(''timestamp'', JStr ''t2''), (''namespace'', JStr ''api''), (''message'', JStr ''fast''),
                         (''data'', JObj [(''duration'', JNum 0)])]) \<and>
   \<not> analyze_isPerf (JObj [(''timestamp'', JStr ''t2''), (''namespace'', JStr ''api''), (''message'', JStr ''fast''),
                         (''data'', JObj [(''duration'', JNum 0)])])"
  by (simp add: perf_isPerf_def analyze_isPerf_def)

text \<open>
  Claim C6, amended.  The \<^verbatim>\<open>perf\<close> view selects an entry if and only if its namespace
  is \<^verbatim>\<open>performance\<close> or the performance test of \<^verbatim>\<open>summarize\<close> holds; that test holds if
  and only if the entry's data has a truthy (non-zero, non-empty) \<^verbatim>\<open>duration\<close>,
  \<^verbatim>\<open>elapsed\<close> or \<^verbatim>\<open>timing\<close> field.  The selected entries are all those in file order, and
  they include every entry that \<^verbatim>\<open>summarize\<close> selects.
\<close>

theorem perf_view_predicate:
  "(perf_isPerf lg \<longleftrightarrow> get lg ''namespace'' = Some (JStr ''performance'') \<or> analyze_isPerf lg) \<and>
   (analyze_isPerf lg \<longleftrightarrow>
      (\<exists>key\<in>set [''duration'', ''elapsed'', ''timing'']. truthy (opt_get (get lg ''data'') key))) \<and>
   perfLogs logs =
     filter (\<lambda>lg. get lg ''namespace'' = Some (JStr ''performance'') \<or> analyze_isPerf lg) logs \<and>
   set (filter analyze_isPerf logs) \<subseteq> set (perfLogs logs)"
proof -
  have p: "perf_isPerf l \<longleftrightarrow> get l ''namespace'' = Some (JStr ''performance'') \<or> analyze_isPerf l" for l
    by (simp add: perf_isPerf_def analyze_isPerf_def)
  have a: "analyze_isPerf lg \<longleftrightarrow>
      (\<exists>key\<in>set [''duration'', ''elapsed'', ''timing'']. truthy (opt_get (get lg ''data'') key))"
    by (simp add: analyze_isPerf_def)
  have f: "perfLogs logs =
     filter (\<lambda>lg. get lg ''namespace'' = Some (JStr ''performance'') \<or> analyze_isPerf lg) logs"
    unfolding perfLogs_def by (rule filter_cong) (simp_all add: p)
  have s: "set (filter analyze_isPerf logs) \<subseteq> set (perfLogs logs)"
    unfolding f by auto
  from p[of lg] a f s show ?thesis by blast
qed

theorem perf_view_predicate_witness:
  "perfLogs
     [JObj [(''namespace'', JStr ''performance''), (''message'', JStr ''tick'')],
      JObj [(''namespace'', JStr ''api''), (''message'', JStr ''hello'')],
      JObj [(''namespace'', JStr ''api''), (''message'', JStr ''done''), (''data'', JObj [(''elapsed'', JNum 7)])]]
   = [JObj [(''namespace'', JStr ''performance''), (''message'', JStr ''tick'')],
      JObj [(''namespace'', JStr ''api''), (''message'', JStr ''done''), (''data'', JObj [(''elapsed'', JNum 7)])]]"
  using perf_view_predicate[of _
     "[JObj [(''namespace'', JStr ''performance''), (''message'', JStr ''tick'')],
      JObj [(''namespace'', JStr ''api''), (''message'', JStr ''hello'')],
      JObj [(''namespace'', JStr ''api''), (''message'', JStr ''done''), (''data'', JObj [(''elapsed'', JNum 7)])]]"]
  by (simp add: analyze_isPerf_def)

subsection \<open>Grouping in the performance view\<close>

lemma map_of_push:
  "map_of (map (\<lambda>(k, ds). if k = op then (k, ds @ [v]) else (k, ds)) ops) k' =
     (if k' = op then map_option (\<lambda>ds. ds @ [v]) (map_of ops k') else map_of ops k')"
  by (induction ops) auto

lemma keys_push:
  "map fst (map (\<lambda>(k, ds). if k = op then (k, ds @ [v]) else (k, ds)) ops) = map fst ops"
  by (induction ops) auto

lemma map_of_append_fresh:
  "map_of ops op = None \<Longrightarrow> map_of (ops @ [(op, v)]) k = (if k = op then Some v else map_of ops k)"
  by (induction ops) (auto split: if_splits)

lemma group_step_Inr:
  assumes "group_step T lg ops = Inr ops1" and "distinct (map fst ops)"
  shows "distinct (map fst ops1) \<and>
         (\<forall>k. map_of ops1 k =
            (if k = op_key T lg
             then (case map_of ops k of Some ds \<Rightarrow> Some (ds @ pushed lg)
                   | None \<Rightarrow> if k \<in> set Object_prototype_keys then None else Some (pushed lg))
             else map_of ops k)) \<and>
         (op_key T lg \<in> set Object_prototype_keys \<and> map_of ops (op_key T lg) = None \<longrightarrow> pushed lg = [])"
proof -
  let ?op = "op_key T lg"
  let ?ops1 = "if map_of ops ?op = None \<and> ?op \<notin> set Object_prototype_keys then ops @ [(?op, [])] else ops"
  have d1: "distinct (map fst ?ops1)"
    using assms(2) by (auto simp: map_of_eq_None_iff)
  have m1: "\<And>k. map_of ?ops1 k =
     (if k = ?op \<and> map_of ops ?op = None \<and> ?op \<notin> set Object_prototype_keys then Some [] else map_of ops k)"
    by (auto simp: map_of_append_fresh simp del: map_of_append)
  show ?thesis
  proof (cases "pushed lg = []")
    case True
    then have "ops1 = ?ops1"
      using assms(1) by (auto simp: group_step_def pushed_def Let_def split: option.splits if_splits)
    then show ?thesis using d1 m1 True by (auto split: option.splits)
  next
    case False
    then obtain v where v: "duration_of lg = Some v" "truthy (Some v)" "pushed lg = [v]"
      by (auto simp: pushed_def split: option.splits if_splits)
    from assms(1) v have ne: "map_of ?ops1 ?op \<noteq> None"
      and o: "ops1 = map (\<lambda>(k, ds). if k = ?op then (k, ds @ [v]) else (k, ds)) ?ops1"
      by (auto simp: group_step_def Let_def split: if_splits)
    have "distinct (map fst ops1)" unfolding o keys_push using d1 .
    moreover have "\<And>k. map_of ops1 k = (if k = ?op then map_option (\<lambda>ds. ds @ [v]) (map_of ?ops1 k) else map_of ?ops1 k)"
      unfolding o by (rule map_of_push)
    ultimately show ?thesis using ne m1 v(3) by (auto split: option.splits if_splits)
  qed
qed

lemma group_step_ok:
  "op_key T lg \<notin> set Object_prototype_keys \<Longrightarrow> \<exists>ops1. group_step T lg ops = Inr ops1"
  by (auto simp: group_step_def Let_def map_of_append_fresh simp del: map_of_append split: option.splits)

lemma group_loop_ok:
  "\<forall>lg\<in>set logs. op_key T lg \<notin> set Object_prototype_keys \<Longrightarrow> \<exists>ops'. group_loop T logs ops = Inr ops'"
proof (induction logs arbitrary: ops)
  case Nil
  then show ?case by simp
next
  case (Cons lg logs)
  then obtain ops1 where "group_step T lg ops = Inr ops1" using group_step_ok[of T lg ops] by auto
  then show ?case using Cons by auto
qed

lemma group_values_Cons:
  "group_values T k (lg # logs) = (if op_key T lg = k then pushed lg else []) @ group_values T k logs"
  by (simp add: group_values_def)

lemma group_values_Nil: "group_values T k [] = []"
  by (simp add: group_values_def)

lemma pushed_cases:
  "pushed lg = (if truthy (duration_of lg) then [the (duration_of lg)] else [])"
  by (cases "duration_of lg") (auto simp: pushed_def)

lemma length_group_values:
  "length (group_values T k logs) =
     length (filter (\<lambda>lg. op_key T lg = k \<and> truthy (duration_of lg)) logs)"
  by (induction logs) (simp_all add: group_values_Nil group_values_Cons pushed_cases)

lemma group_loop_Inr:
  "group_loop T logs ops = Inr ops' \<Longrightarrow> distinct (map fst ops) \<Longrightarrow>
   distinct (map fst ops') \<and>
   (\<forall>k. map_of ops' k =
      (case map_of ops k of Some ds \<Rightarrow> Some (ds @ group_values T k logs)
       | None \<Rightarrow> if k \<notin> set Object_prototype_keys \<and> (\<exists>lg\<in>set logs. op_key T lg = k)
                 then Some (group_values T k logs) else None)) \<and>
   (\<forall>k\<in>set Object_prototype_keys. map_of ops k = None \<longrightarrow> group_values T k logs = [])"
proof (induction logs arbitrary: ops)
  case Nil
  then show ?case by (auto simp: group_values_def split: option.splits)
next
  case (Cons lg logs)
  from Cons.prems(1) obtain ops1 where s: "group_step T lg ops = Inr ops1"
    and l: "group_loop T logs ops1 = Inr ops'"
    by (auto split: sum.splits)
  note st = group_step_Inr[OF s Cons.prems(2)]
  from st have d1: "distinct (map fst ops1)" by blast
  note ih = Cons.IH[OF l d1]
  have a: "distinct (map fst ops')" using ih by blast
  have b: "map_of ops' k =
      (case map_of ops k of Some ds \<Rightarrow> Some (ds @ group_values T k (lg # logs))
       | None \<Rightarrow> if k \<notin> set Object_prototype_keys \<and> (\<exists>lg\<in>set (lg # logs). op_key T lg = k)
                 then Some (group_values T k (lg # logs)) else None)" for k
  proof -
    from ih have 1: "map_of ops' k =
      (case map_of ops1 k of Some ds \<Rightarrow> Some (ds @ group_values T k logs)
       | None \<Rightarrow> if k \<notin> set Object_prototype_keys \<and> (\<exists>lg\<in>set logs. op_key T lg = k)
                 then Some (group_values T k logs) else None)" by blast
    from st have 2: "map_of ops1 k =
            (if k = op_key T lg
             then (case map_of ops k of Some ds \<Rightarrow> Some (ds @ pushed lg)
                   | None \<Rightarrow> if k \<in> set Object_prototype_keys then None else Some (pushed lg))
             else map_of ops k)" by blast
    show ?thesis unfolding 1 2 group_values_Cons
      by (auto split: option.splits)
  qed
  have c: "group_values T k (lg # logs) = []" if "k \<in> set Object_prototype_keys" "map_of ops k = None" for k
  proof -
    from st that have 1: "map_of ops1 k = None" by (auto split: if_splits)
    with ih that have 2: "group_values T k logs = []" by blast
    from st that have "op_key T lg = k \<longrightarrow> pushed lg = []" by blast
    with 2 show ?thesis by (simp add: group_values_Cons)
  qed
  from a b c show ?case by blast
qed

lemma group_values_nonempty:
  "group_values T k logs \<noteq> [] \<Longrightarrow> \<exists>lg\<in>set logs. op_key T lg = k"
  by (induction logs) (auto simp: group_values_Nil group_values_Cons split: if_splits)

lemma report_mem:
  "(op, n, ds) \<in> set (report ops) \<longleftrightarrow> (op, ds) \<in> set ops \<and> ds \<noteq> [] \<and> n = length ds"
  by (auto simp: report_def)

text \<open>
  Claim C5, as stated: a matching entry without a duration, elapsed or timing value
  still contributes to its group's reported count.  Of two matching entries with the
  message \<^verbatim>\<open>op\<close>, one with \<^verbatim>\<open>duration: 10\<close> and one with no data, and a third matching
  entry \<^verbatim>\<open>idle\<close> with no data, the heading counts 3 and the only block printed is
  \<^verbatim>\<open>op\<close> with count 1.
\<close>

theorem perf_group_count_counterexample:
  "perfCommand (\<lambda>v. ''?'')
     [JObj [(''namespace'', JStr ''performance''), (''message'', JStr ''op''),
            (''data'', JObj [(''duration'', JNum 10)])],
      JObj [(''namespace'', JStr ''performance''), (''message'', JStr ''op'')],
      JObj [(''namespace'', JStr ''performance''), (''message'', JStr ''idle'')]]
   = Inr (3, [(''op'', 1, [JNum 10])])"
  by (simp add: perfCommand_def perfLogs_def perf_isPerf_def group_step_def op_key_def
      duration_of_def Object_prototype_keys_def report_def)

text \<open>
  Claim C5, amended.  In the \<^verbatim>\<open>perf\<close> view's grouping by message, the count reported
  for a group is the number of values its average, minimum and maximum are taken over,
  that is the number of matching entries of the group with a truthy duration, elapsed or
  timing value.  A matching entry without such a value contributes to neither; it is
  counted only in the number of matches of the heading, which is the number of all
  matching entries.  A group is printed exactly when it has at least one value.  The
  command returns such a result unless a matching entry's group name is a property name
  of \<^verbatim>\<open>Object.prototype\<close>.
\<close>

theorem perf_group_count_is_number_of_values:
  "((\<forall>lg\<in>set (perfLogs logs). op_key T lg \<notin> set Object_prototype_keys) \<longrightarrow>
      (\<exists>out. perfCommand T logs = Inr out)) \<and>
   (perfCommand T logs = Inr (found, groups) \<longrightarrow>
      found = length (filter perf_isPerf logs) \<and>
      ((op, n, ds) \<in> set groups \<longleftrightarrow>
         ds = group_values T op (perfLogs logs) \<and> ds \<noteq> [] \<and> n = length ds) \<and>
      length (group_values T op (perfLogs logs)) =
        length (filter (\<lambda>lg. op_key T lg = op \<and> truthy (duration_of lg)) (perfLogs logs)))"
proof -
  have ok: "(\<forall>lg\<in>set (perfLogs logs). op_key T lg \<notin> set Object_prototype_keys) \<longrightarrow>
      (\<exists>out. perfCommand T logs = Inr out)"
  proof
    assume "\<forall>lg\<in>set (perfLogs logs). op_key T lg \<notin> set Object_prototype_keys"
    from group_loop_ok[OF this, of "[]"] obtain ops where "group_loop T (perfLogs logs) [] = Inr ops" by blast
    then show "\<exists>out. perfCommand T logs = Inr out" by (simp add: perfCommand_def)
  qed
  have res: "found = length (filter perf_isPerf logs) \<and>
      ((op, n, ds) \<in> set groups \<longleftrightarrow>
         ds = group_values T op (perfLogs logs) \<and> ds \<noteq> [] \<and> n = length ds)"
    if r: "perfCommand T logs = Inr (found, groups)"
  proof (cases "perfLogs logs = []")
    case True
    with r have "found = 0" "groups = []" by (simp_all add: perfCommand_def)
    with True show ?thesis by (simp add: perfLogs_def[symmetric] group_values_Nil)
  next
    case False
    with r obtain ops where l: "group_loop T (perfLogs logs) [] = Inr ops"
      and f: "found = length (perfLogs logs)" and g: "groups = report ops"
      by (auto simp: perfCommand_def split: sum.splits)
    from group_loop_Inr[OF l] have d: "distinct (map fst ops)"
      and m: "\<And>k. map_of ops k = (if k \<notin> set Object_prototype_keys \<and> (\<exists>lg\<in>set (perfLogs logs). op_key T lg = k)
                 then Some (group_values T k (perfLogs logs)) else None)"
      and p: "\<And>k. k \<in> set Object_prototype_keys \<Longrightarrow> group_values T k (perfLogs logs) = []"
      by simp_all
    have mo: "(op, ds) \<in> set ops \<longleftrightarrow> map_of ops op = Some ds"
      using d by simp
    have "(op, ds) \<in> set ops \<and> ds \<noteq> [] \<longleftrightarrow> ds = group_values T op (perfLogs logs) \<and> ds \<noteq> []"
    proof (cases "op \<in> set Object_prototype_keys")
      case True
      then show ?thesis unfolding mo m[of op] using p[of op] by auto
    next
      case False
      then show ?thesis unfolding mo m[of op]
        using group_values_nonempty[of T op "perfLogs logs"] by auto
    qed
    then show ?thesis unfolding g report_mem f perfLogs_def[symmetric] by blast
  qed
  from ok res length_group_values[of T op "perfLogs logs"] show ?thesis by blast
qed

theorem perf_group_count_is_number_of_values_witness:
  "length (filter perf_isPerf
     [JObj [(''namespace'', JStr ''api''), (''message'', JStr ''op''), (''data'', JObj [(''duration'', JNum 10)])],
      JObj [(''namespace'', JStr ''performance''), (''message'', JStr ''op'')],
      JObj [(''namespace'', JStr ''api''), (''message'', JStr ''op''), (''data'', JObj [(''elapsed'', JNum 30)])]]) = 3 \<and>
   group_values (\<lambda>v. ''?'') ''op'' (perfLogs
     [JObj [(''namespace'', JStr ''api''), (''message'', JStr ''op''), (''data'', JObj [(''duration'', JNum 10)])],
      JObj [(''namespace'', JStr ''performance''), (''message'', JStr ''op'')],
      JObj [(''namespace'', JStr ''api''), (''message'', JStr ''op''), (''data'', JObj [(''elapsed'', JNum 30)])]])
     = [JNum 10, JNum 30]"
proof -
  let ?logs = "[JObj [(''namespace'', JStr ''api''), (''message'', JStr ''op''), (''data'', JObj [(''duration'', JNum 10)])],
      JObj [(''namespace'', JStr ''performance''), (''message'', JStr ''op'')],
      JObj [(''namespace'', JStr ''api''), (''message'', JStr ''op''), (''data'', JObj [(''elapsed'', JNum 30)])]]"
  have r: "perfCommand (\<lambda>v. ''?'') ?logs = Inr (3, [(''op'', 2, [JNum 10, JNum 30])])"
    by (simp add: perfCommand_def perfLogs_def perf_isPerf_def group_step_def op_key_def
        duration_of_def Object_prototype_keys_def report_def)
  from perf_group_count_is_number_of_values[of ?logs "\<lambda>v. ''?''" 3 "[(''op'', 2, [JNum 10, JNum 30])]"
      "''op''" 2 "[JNum 10, JNum 30]"] r
  show ?thesis by simp
qed

end
